theory Spec2Isabelle
  imports Main
begin

section \<open>Values and errors\<close>

text \<open>
  Values of type \<open>unknown\<close> in the source (op contents, local op metadata) are JSON-like
  values. A property that is \<open>undefined\<close> is \<open>None\<close> in an option type.
\<close>

datatype json =
    JNull
  | JBool bool
  | JNum int
  | JStr string
  | JArr "json list"
  | JObj "(string \<times> json) list"

text \<open>
  Every way the source leaves a method abnormally: \<open>assert(cond, code)\<close> with its hexadecimal
  code, \<open>DataProcessingError.create(message, ...)\<close>, \<open>new Error(message)\<close>, a property read
  on \<open>undefined\<close> or \<open>null\<close>, a failed \<open>JSON.parse\<close>, and an exception raised by a collaborator.
\<close>

datatype error =
    AssertFailed nat
  | DataProcessingError string
  | PlainError string
  | TypeError
  | SyntaxError
  | External string

section \<open>Data model\<close>

text \<open>
  Reading property \<open>k\<close> of a value other than \<open>null\<close>. An object has the properties it
  lists; of the other values only \<open>length\<close> of an array or a string is read by the source.
  Reading a property of \<open>null\<close> throws: \<open>isEmptyBatchPendingMessage\<close> below tests for it
  first, and a runtime op is never \<open>null\<close> (a flushed op is an object by its type, and a
  stashed content that parses to \<open>null\<close> is rejected before it becomes a runtime op).
\<close>

fun jsProp :: "json \<Rightarrow> string \<Rightarrow> json option" where
  "jsProp (JObj kvs) k = map_of kvs k"
| "jsProp (JArr xs) k = (if k = ''length'' then Some (JNum (int (length xs))) else None)"
| "jsProp (JStr s) k = (if k = ''length'' then Some (JNum (int (length s))) else None)"
| "jsProp _ k = None"

text \<open>
  A runtime op (\<open>LocalContainerRuntimeMessage | EmptyGroupedBatch\<close>) is an object with the
  properties \<open>type\<close> and \<open>contents\<close>; it is kept as the value it is.
\<close>

type_synonym runtime_op = json

text \<open>
  \<open>opMetadata\<close> as the source reads it, through \<open>asBatchMetadata\<close> (of \<open>metadata.js\<close>, not among
  the sources): the optional \<open>batch\<close> flag and the optional stamped \<open>batchId\<close>.
\<close>

record op_metadata =
  batch :: "bool option"
  batchId :: "string option"

record batch_info =
  bi_clientId :: string
  batchStartCsn :: int
  bi_length :: int
  ignoreBatchId :: "bool option"
  staged :: bool

text \<open>
  \<open>IPendingMessage\<close>. The type parameter is the type of \<open>batchInfo\<close>: a \<open>batch_info\<close> for
  \<open>IPendingMessage\<close>, an optional one for \<open>IPendingMessageFromStash\<close> (the first version of
  the format pre-dates \<open>batchInfo\<close>).
\<close>

record 'b pending =
  referenceSequenceNumber :: int
  content :: string
  runtimeOp :: "runtime_op option"
  localOpMetadata :: "json option"
  opMetadata :: "op_metadata option"
  sequenceNumber :: "int option"
  batchInfo :: 'b

type_synonym IPendingMessage = "batch_info pending"
type_synonym IPendingMessageFromStash = "batch_info option pending"

text \<open>
  \<open>LocalBatchMessage\<close> and \<open>LocalEmptyBatchPlaceholder\<close> are declared in the op lifecycle,
  outside this file; these are the four properties that \<open>onFlushBatch\<close> reads.
\<close>

record local_batch_message =
  lbm_runtimeOp :: runtime_op
  lbm_referenceSequenceNumber :: int
  lbm_localOpMetadata :: "json option"
  lbm_metadata :: "op_metadata option"

text \<open>\<open>InboundSequencedContainerRuntimeMessage\<close>: type, contents and the sequence number.\<close>

record inbound_message =
  msg_type :: string
  msg_contents :: "json option"
  msg_sequenceNumber :: int

text \<open>
  \<open>BatchStartInfo\<close>, declared in the op lifecycle: the properties this file reads. Of the key
  message only the sequence number matters to the state.
\<close>

record batch_start_info =
  bs_batchId :: "string option"
  bs_clientId :: string
  bs_batchStartCsn :: int
  keyMessage_sequenceNumber :: int

text \<open>
  \<open>InboundMessageResult\<close>, declared in the op lifecycle, as this file reads it: a union
  tagged by \<open>type\<close>, with \<open>messages\<close>, \<open>batchStart\<close> and \<open>length\<close> for \<open>"fullBatch"\<close>, with
  \<open>batchStart\<close> and \<open>nextMessage\<close> for the first message of a batch, and with \<open>nextMessage\<close>
  alone for a later message of a batch. Only a full batch has a \<open>length\<close>.
\<close>

datatype inbound_message_result =
    FullBatch "inbound_message list" batch_start_info int
  | BatchStartingMessage batch_start_info inbound_message
  | NextBatchMessage inbound_message

fun inbound_batchStart :: "inbound_message_result \<Rightarrow> batch_start_info option" where
  "inbound_batchStart (FullBatch ms b n) = Some b"
| "inbound_batchStart (BatchStartingMessage b m) = Some b"
| "inbound_batchStart (NextBatchMessage m) = None"

fun inbound_length :: "inbound_message_result \<Rightarrow> int option" where
  "inbound_length (FullBatch ms b n) = Some n"
| "inbound_length (BatchStartingMessage b m) = None"
| "inbound_length (NextBatchMessage m) = None"

text \<open>\<open>inbound.type === "fullBatch" ? inbound.messages : [inbound.nextMessage]\<close>\<close>

fun inbound_messages :: "inbound_message_result \<Rightarrow> inbound_message list" where
  "inbound_messages (FullBatch ms b n) = ms"
| "inbound_messages (BatchStartingMessage b m) = [m]"
| "inbound_messages (NextBatchMessage m) = [m]"

text \<open>
  The fields of \<open>PendingStateManager\<close>. The two deques are lists with the front at the head:
  \<open>push\<close> appends, \<open>shift\<close> removes the head, \<open>pop\<close> removes the last element. \<open>telemetry\<close>
  holds the names of the events sent to the logger, in order.
\<close>

record pending_state =
  pendingMessages :: "IPendingMessage list"
  initialMessages :: "IPendingMessageFromStash list"
  savedOps :: "IPendingMessage list"
  clientIdFromLastReplay :: "string option"
  telemetry :: "string list"

text \<open>The constructor: both queues empty but for the stashed pending states.\<close>

definition newPendingStateManager :: "IPendingMessageFromStash list option \<Rightarrow> pending_state" where
  "newPendingStateManager stashedPendingStates =
     \<lparr>pendingMessages = [],
      initialMessages = (case stashedPendingStates of None \<Rightarrow> [] | Some ms \<Rightarrow> ms),
      savedOps = [],
      clientIdFromLastReplay = None,
      telemetry = []\<rparr>"

section \<open>Functions defined outside this file\<close>

text \<open>
  The source imports these; they are parameters of the model. \<open>JSON_stringify\<close> and
  \<open>JSON_parse\<close> are the built-ins (\<open>None\<close> when \<open>JSON.parse\<close> throws), \<open>serializeOp\<close> and
  \<open>getEffectiveBatchId\<close> (which takes a pending message or a batch start) come from the
  op lifecycle, \<open>wrapIfUnrecognized\<close> is \<open>DataProcessingError.wrapIfUnrecognized\<close>, and
  \<open>uuid\<close> is the stream of values that successive \<open>uuid()\<close> calls return.
\<close>

record externals =
  JSON_stringify :: "json \<Rightarrow> string"
  JSON_parse :: "string \<Rightarrow> json option"
  serializeOp :: "runtime_op \<Rightarrow> string"
  getEffectiveBatchId_pending :: "IPendingMessage \<Rightarrow> string"
  getEffectiveBatchId_inbound :: "batch_start_info \<Rightarrow> string"
  wrapIfUnrecognized :: "error \<Rightarrow> error"
  uuid :: "nat \<Rightarrow> string"

text \<open>
  Modelled from the spec: \<open>asEmptyBatchLocalOpMetadata\<close> of \<open>metadata.js\<close>, which is not among
  the sources. The spec calls the metadata of a placeholder "local metadata tagged
  \<open>{emptyBatch: true}\<close>"; the test \<open>asEmptyBatchLocalOpMetadata(x)?.emptyBatch === true\<close> holds
  of an object whose \<open>emptyBatch\<close> property is \<open>true\<close>.
\<close>

definition isEmptyBatchLocalOpMetadata :: "json option \<Rightarrow> bool" where
  "isEmptyBatchLocalOpMetadata md =
     (case md of
        Some (JObj kvs) \<Rightarrow> map_of kvs ''emptyBatch'' = Some (JBool True)
      | _ \<Rightarrow> False)"

section \<open>Helpers of the source file\<close>

definition buildPendingMessageContent :: "externals \<Rightarrow> inbound_message \<Rightarrow> string" where
  "buildPendingMessageContent ext message =
     JSON_stringify ext
       (JObj ((''type'', JStr (msg_type message)) #
              (case msg_contents message of
                 None \<Rightarrow> []
               | Some c \<Rightarrow> [(''contents'', c)])))"

definition toSerializableForm :: "IPendingMessage \<Rightarrow> IPendingMessage" where
  "toSerializableForm message = message\<lparr>localOpMetadata := None, runtimeOp := None\<rparr>"

definition hasTypicalRuntimeOp :: "IPendingMessage \<Rightarrow> bool" where
  "hasTypicalRuntimeOp message =
     (case runtimeOp message of
        None \<Rightarrow> False
      | Some rop \<Rightarrow> jsProp rop ''type'' \<noteq> Some (JStr ''groupedBatch''))"

section \<open>Flushing\<close>

text \<open>The \<open>pendingMessage\<close> that the loop of \<open>onFlushBatch\<close> builds for one message of the batch.\<close>

definition newPendingMessage ::
  "externals \<Rightarrow> batch_info \<Rightarrow> local_batch_message \<Rightarrow> IPendingMessage" where
  "newPendingMessage ext info message =
     \<lparr>referenceSequenceNumber = lbm_referenceSequenceNumber message,
      content = serializeOp ext (lbm_runtimeOp message),
      runtimeOp = Some (lbm_runtimeOp message),
      localOpMetadata = lbm_localOpMetadata message,
      opMetadata = lbm_metadata message,
      sequenceNumber = None,
      batchInfo = info\<rparr>"

text \<open>
  \<open>onFlushBatch\<close>. \<open>handlerClientId\<close> is what \<open>stateHandler.clientId()\<close> returns during the
  call and \<open>uuidValue\<close> what \<open>uuid()\<close> returns. Both assertions come before the first push, so
  a failed call leaves the state as it was.
\<close>

definition onFlushBatch ::
  "externals \<Rightarrow> string option \<Rightarrow> string \<Rightarrow> local_batch_message list \<Rightarrow> int option \<Rightarrow> bool \<Rightarrow>
   bool option \<Rightarrow> pending_state \<Rightarrow> (error + unit) \<times> pending_state" where
  "onFlushBatch ext handlerClientId uuidValue batchMsgs clientSequenceNumber stg ign s =
     (let batchWasSent = (clientSequenceNumber \<noteq> None) in
      if batchWasSent \<and> stg then (Inl (AssertFailed 0xb84), s)
      else
        let (clientId, csn) =
              (case clientSequenceNumber of
                 Some c \<Rightarrow> (handlerClientId, c)
               | None \<Rightarrow> (Some uuidValue, - 1))
        in case clientId of
             None \<Rightarrow> (Inl (AssertFailed 0xa33), s)
           | Some cid \<Rightarrow>
               (Inr (),
                s\<lparr>pendingMessages := pendingMessages s @
                     map (newPendingMessage ext
                            \<lparr>bi_clientId = cid, batchStartCsn = csn,
                             bi_length = int (length batchMsgs),
                             ignoreBatchId = ign, staged = stg\<rparr>)
                         batchMsgs\<rparr>))"

definition onFlushEmptyBatch ::
  "externals \<Rightarrow> string option \<Rightarrow> string \<Rightarrow> local_batch_message \<Rightarrow> int option \<Rightarrow> bool \<Rightarrow>
   pending_state \<Rightarrow> (error + unit) \<times> pending_state" where
  "onFlushEmptyBatch ext handlerClientId uuidValue placeholder clientSequenceNumber stg s =
     onFlushBatch ext handlerClientId uuidValue [placeholder] clientSequenceNumber stg None s"

section \<open>Processing acks\<close>

text \<open>
  \<open>processNextPendingMessage\<close>. The pending message is stamped, saved and shifted before the
  comparison. On a mismatch the source computes the details of the telemetry event (lengths,
  first differing character, scrubbed payloads), sends the event and throws. For the details
  it parses both strings, which throws on a string that is no JSON text, and reads
  \<open>contents\<close> of both results, which throws on \<open>null\<close>; the rest of the computation is
  total. The model records the event by its name.
\<close>

definition processNextPendingMessage ::
  "externals \<Rightarrow> int \<Rightarrow> inbound_message option \<Rightarrow> pending_state \<Rightarrow>
   (error + json option) \<times> pending_state" where
  "processNextPendingMessage ext seqNum message s =
     (case pendingMessages s of
        [] \<Rightarrow> (Inl (AssertFailed 0x169), s)
      | front # rest \<Rightarrow>
          let pendingMessage = front\<lparr>sequenceNumber := Some seqNum\<rparr>;
              s1 = s\<lparr>savedOps := savedOps s @ [toSerializableForm pendingMessage]\<rparr>;
              s2 = s1\<lparr>pendingMessages := rest\<rparr>
          in case message of
               None \<Rightarrow> (Inr (localOpMetadata pendingMessage), s2)
             | Some m \<Rightarrow>
                 let messageContent = buildPendingMessageContent ext m in
                 (if content pendingMessage \<noteq> messageContent
                  then (case JSON_parse ext (content pendingMessage) of
                          None \<Rightarrow> (Inl SyntaxError, s2)
                        | Some pendingContentObj \<Rightarrow>
                            (case JSON_parse ext messageContent of
                               None \<Rightarrow> (Inl SyntaxError, s2)
                             | Some incomingContentObj \<Rightarrow>
                                 if pendingContentObj = JNull \<or> incomingContentObj = JNull
                                 then (Inl TypeError, s2)
                                 else (Inl (DataProcessingError
                                              ''pending local message content mismatch''),
                                       s2\<lparr>telemetry :=
                                            telemetry s2 @ [''unexpectedAckReceived'']\<rparr>)))
                  else (Inr (localOpMetadata pendingMessage), s2)))"

text \<open>
  The \<open>messages.map(...)\<close> of \<open>processPendingLocalMessages\<close>: one call of
  \<open>processNextPendingMessage\<close> per message, in order; an exception ends the loop.
\<close>

fun zipLocalOpMetadata ::
  "externals \<Rightarrow> inbound_message list \<Rightarrow> pending_state \<Rightarrow>
   (error + (inbound_message \<times> json option option) list) \<times> pending_state" where
  "zipLocalOpMetadata ext [] s = (Inr [], s)"
| "zipLocalOpMetadata ext (m # ms) s =
     (case processNextPendingMessage ext (msg_sequenceNumber m) (Some m) s of
        (Inl e, s') \<Rightarrow> (Inl e, s')
      | (Inr md, s') \<Rightarrow>
          (case zipLocalOpMetadata ext ms s' of
             (Inl e, s'') \<Rightarrow> (Inl e, s'')
           | (Inr r, s'') \<Rightarrow> (Inr ((m, Some md) # r), s'')))"

text \<open>
  \<open>onLocalBatchBegin\<close>: two assertions on the front of the queue, then a comparison of the
  batch information that is only logged.
\<close>

definition onLocalBatchBegin ::
  "batch_start_info \<Rightarrow> int option \<Rightarrow> pending_state \<Rightarrow> (error + unit) \<times> pending_state" where
  "onLocalBatchBegin batchStart batchLength s =
     (case pendingMessages s of
        [] \<Rightarrow> (Inl (AssertFailed 0xa21), s)
      | pendingMessage # rest \<Rightarrow>
          if staged (batchInfo pendingMessage) then (Inl (AssertFailed 0xb85), s)
          else
            let skipLengthCheck =
                  (bi_length (batchInfo pendingMessage) = - 1 \<or> batchLength = None);
                expectedPendingBatchLength =
                  (if batchLength = Some 0 then Some 1 else batchLength);
                pendingBatchId =
                  (case opMetadata pendingMessage of None \<Rightarrow> None | Some md \<Rightarrow> batchId md);
                inboundBatchId = bs_batchId batchStart
            in if batchStartCsn (batchInfo pendingMessage) \<noteq> bs_batchStartCsn batchStart \<or>
                  (\<not> skipLengthCheck \<and>
                   Some (bi_length (batchInfo pendingMessage)) \<noteq> expectedPendingBatchLength) \<or>
                  pendingBatchId \<noteq> inboundBatchId
               then (Inr (), s\<lparr>telemetry := telemetry s @ [''BatchInfoMismatch'']\<rparr>)
               else (Inr (), s))"

definition processPendingLocalMessages ::
  "externals \<Rightarrow> inbound_message_result \<Rightarrow> pending_state \<Rightarrow>
   (error + (inbound_message \<times> json option option) list) \<times> pending_state" where
  "processPendingLocalMessages ext inbound s =
     (case (case inbound_batchStart inbound of
              None \<Rightarrow> (Inr (), s)
            | Some b \<Rightarrow> onLocalBatchBegin b (inbound_length inbound) s) of
        (Inl e, s1) \<Rightarrow> (Inl e, s1)
      | (Inr u, s1) \<Rightarrow>
          if inbound_length inbound = Some 0
          then (case inbound_batchStart inbound of
                  None \<Rightarrow> (Inl TypeError, s1)
                | Some b \<Rightarrow>
                    (case processNextPendingMessage ext (keyMessage_sequenceNumber b) None s1 of
                       (Inl e, s2) \<Rightarrow> (Inl e, s2)
                     | (Inr md, s2) \<Rightarrow>
                         if isEmptyBatchLocalOpMetadata md then (Inr [], s2)
                         else (Inl (AssertFailed 0xa20), s2)))
          else zipLocalOpMetadata ext (inbound_messages inbound) s1)"

section \<open>Remote batches\<close>

text \<open>\<open>Array.prototype.findIndex\<close>, with \<open>None\<close> for \<open>-1\<close>.\<close>

fun findIndex :: "('a \<Rightarrow> bool) \<Rightarrow> 'a list \<Rightarrow> nat option" where
  "findIndex P [] = None"
| "findIndex P (x # xs) =
     (if P x then Some 0 else map_option Suc (findIndex P xs))"

definition remoteBatchMatchesPendingBatch ::
  "externals \<Rightarrow> batch_start_info \<Rightarrow> pending_state \<Rightarrow> bool" where
  "remoteBatchMatchesPendingBatch ext remoteBatchStart s =
     (case findIndex (\<lambda>m. ignoreBatchId (batchInfo m) \<noteq> Some True) (pendingMessages s) of
        None \<Rightarrow> False
      | Some firstIndexUsingBatchId \<Rightarrow>
          getEffectiveBatchId_pending ext (pendingMessages s ! firstIndexUsingBatchId) =
          getEffectiveBatchId_inbound ext remoteBatchStart)"

text \<open>
  \<open>processInboundMessages\<close>. An entry of the result is the message with its
  \<open>localOpMetadata\<close> property: \<open>None\<close> when the entry has no such property (remote messages),
  \<open>Some md\<close> when it has one.
\<close>

definition processInboundMessages ::
  "externals \<Rightarrow> inbound_message_result \<Rightarrow> bool \<Rightarrow> pending_state \<Rightarrow>
   (error + (inbound_message \<times> json option option) list) \<times> pending_state" where
  "processInboundMessages ext inbound local s =
     (if local then processPendingLocalMessages ext inbound s
      else
        case inbound_batchStart inbound of
          None \<Rightarrow> (Inr (map (\<lambda>message. (message, None)) (inbound_messages inbound)), s)
        | Some b \<Rightarrow>
            if remoteBatchMatchesPendingBatch ext b s
            then (Inl (DataProcessingError
                         ''Forked Container Error! Matching batchIds but mismatched clientId''), s)
            else (Inr (map (\<lambda>message. (message, None)) (inbound_messages inbound)), s))"

section \<open>Replaying pending states\<close>

text \<open>\<open>PendingMessageResubmitData\<close> and \<open>PendingBatchResubmitMetadata\<close>.\<close>

record resubmit_data =
  rd_runtimeOp :: "runtime_op option"
  rd_localOpMetadata :: "json option"
  rd_opMetadata :: "op_metadata option"

record resubmit_metadata =
  rm_batchId :: "string option"
  rm_staged :: bool
  rm_squash :: bool

text \<open>
  Resubmitting a batch re-enters the submit path of the runtime, which flushes to this
  manager again. A \<open>flush_call\<close> is one such call of \<open>onFlushBatch\<close>: its arguments, and
  what \<open>stateHandler.clientId()\<close> and \<open>uuid()\<close> return while it runs.
\<close>

record flush_call =
  fc_handlerClientId :: "string option"
  fc_uuidValue :: string
  fc_batch :: "local_batch_message list"
  fc_clientSequenceNumber :: "int option"
  fc_staged :: bool
  fc_ignoreBatchId :: "bool option"

text \<open>
  \<open>IRuntimeStateHandler\<close>. The runtime behind it has a state of its own, of type \<open>'w\<close>, which
  the queries read and the callbacks change. \<open>applyStashedOp\<close> returns the local op metadata
  or the error it was rejected with. \<open>reSubmitBatch\<close> returns the flush calls it made on this
  manager, in order, and the exception it ended with, if any.
\<close>

record 'w state_handler =
  connected :: "'w \<Rightarrow> bool"
  clientId :: "'w \<Rightarrow> string option"
  applyStashedOp :: "string \<Rightarrow> 'w \<Rightarrow> (error + json option) \<times> 'w"
  reSubmitBatch ::
    "resubmit_data list \<Rightarrow> resubmit_metadata \<Rightarrow> 'w \<Rightarrow> (flush_call list \<times> error option) \<times> 'w"
  isActiveConnection :: "'w \<Rightarrow> bool"
  isAttached :: "'w \<Rightarrow> bool"

record replay_options =
  committingStagedBatches :: bool
  squash :: bool

definition defaultReplayPendingStatesOptions :: replay_options where
  "defaultReplayPendingStatesOptions = \<lparr>committingStagedBatches = False, squash = False\<rparr>"

text \<open>\<open>{ ...defaultReplayPendingStatesOptions, ...options }\<close>\<close>

definition effectiveOptions :: "replay_options option \<Rightarrow> replay_options" where
  "effectiveOptions options =
     (case options of None \<Rightarrow> defaultReplayPendingStatesOptions | Some x \<Rightarrow> x)"

text \<open>The flush calls made while \<open>reSubmitBatch\<close> runs; an assertion of one of them ends it.\<close>

fun runFlushCalls ::
  "externals \<Rightarrow> flush_call list \<Rightarrow> pending_state \<Rightarrow> (error + unit) \<times> pending_state" where
  "runFlushCalls ext [] s = (Inr (), s)"
| "runFlushCalls ext (c # cs) s =
     (case onFlushBatch ext (fc_handlerClientId c) (fc_uuidValue c) (fc_batch c)
             (fc_clientSequenceNumber c) (fc_staged c) (fc_ignoreBatchId c) s of
        (Inl e, s') \<Rightarrow> (Inl e, s')
      | (Inr u, s') \<Rightarrow> runFlushCalls ext cs s')"

text \<open>\<open>this.stateHandler.reSubmitBatch(batch, metadata)\<close>, with what it does to the queue.\<close>

definition callReSubmitBatch ::
  "externals \<Rightarrow> 'w state_handler \<Rightarrow> resubmit_data list \<Rightarrow> resubmit_metadata \<Rightarrow>
   pending_state \<Rightarrow> 'w \<Rightarrow> (error + unit) \<times> pending_state \<times> 'w" where
  "callReSubmitBatch ext h batchData metadata s w =
     (case reSubmitBatch h batchData metadata w of
        ((calls, thrown), w') \<Rightarrow>
          (case runFlushCalls ext calls s of
             (Inl e, s') \<Rightarrow> (Inl e, s', w')
           | (Inr u, s') \<Rightarrow>
               (case thrown of
                  None \<Rightarrow> (Inr (), s', w')
                | Some e \<Rightarrow> (Inl e, s', w'))))"

text \<open>\<open>asBatchMetadata(message.opMetadata)?.batch\<close>, which is also \<open>message.opMetadata?.batch\<close>.\<close>

definition batchFlag :: "IPendingMessage \<Rightarrow> bool option" where
  "batchFlag message = (case opMetadata message of None \<Rightarrow> None | Some md \<Rightarrow> batch md)"

definition resubmitData :: "IPendingMessage \<Rightarrow> resubmit_data" where
  "resubmitData message =
     \<lparr>rd_runtimeOp = runtimeOp message,
      rd_localOpMetadata = localOpMetadata message,
      rd_opMetadata = opMetadata message\<rparr>"

text \<open>
  The inner loop of \<open>replayPendingStates\<close>, which collects a multi-message batch. Its
  condition \<open>remainingPendingMessagesCount >= 0\<close> always holds: the count is only decremented
  after the assertion that it is positive. \<open>shift()\<close> on an empty queue returns \<open>undefined\<close>,
  whose property \<open>opMetadata\<close> cannot be read.
\<close>

fun collectBatch ::
  "IPendingMessage \<Rightarrow> nat \<Rightarrow> resubmit_data list \<Rightarrow> pending_state \<Rightarrow>
   (error + resubmit_data list \<times> nat) \<times> pending_state" where
  "collectBatch pendingMessage remaining batchData s =
     (if \<not> hasTypicalRuntimeOp pendingMessage then (Inl (AssertFailed 0xb88), s)
      else
        let batchData' = batchData @ [resubmitData pendingMessage] in
        if batchFlag pendingMessage = Some False then (Inr (batchData', remaining), s)
        else
          (case remaining of
             0 \<Rightarrow> (Inl (AssertFailed 0x555), s)
           | Suc r \<Rightarrow>
               (case pendingMessages s of
                  [] \<Rightarrow> (Inl TypeError, s)
                | nextMessage # rest \<Rightarrow>
                    if batchFlag nextMessage = Some True
                    then (Inl (AssertFailed 0x556), s\<lparr>pendingMessages := rest\<rparr>)
                    else collectBatch nextMessage r batchData' (s\<lparr>pendingMessages := rest\<rparr>))))"

declare collectBatch.simps [simp del]

lemma collectBatch_le:
  "collectBatch pm r b s = (Inr (b', r'), s') \<Longrightarrow> r' \<le> r"
proof (induction pm r b s rule: collectBatch.induct)
  case (1 pm r b s)
  note eq = "1.prems"[unfolded collectBatch.simps[of pm r b s]]
  show ?case
  proof (cases r)
    case 0
    then show ?thesis using eq by (auto simp: Let_def split: if_splits)
  next
    case (Suc k)
    show ?thesis
    proof (cases "pendingMessages s")
      case Nil
      then show ?thesis using eq Suc by (auto simp: Let_def split: if_splits)
    next
      case (Cons n rest)
      show ?thesis
        using eq Suc Cons "1.IH"[OF _ refl _ Suc Cons]
        by (fastforce simp: Let_def split: if_splits)
    qed
  qed
qed

text \<open>\<open>pendingMessage.batchInfo.staged = false\<close>\<close>

definition clearStagedFlag :: "IPendingMessage \<Rightarrow> IPendingMessage" where
  "clearStagedFlag message = message\<lparr>batchInfo := (batchInfo message)\<lparr>staged := False\<rparr>\<rparr>"

text \<open>
  The \<open>{ batchId, staged, squash }\<close> passed to \<open>reSubmitBatch\<close> for the batch that starts with
  the given message.
\<close>

definition resubmitMetadata :: "externals \<Rightarrow> bool \<Rightarrow> IPendingMessage \<Rightarrow> resubmit_metadata" where
  "resubmitMetadata ext sq pendingMessage =
     \<lparr>rm_batchId =
        (if ignoreBatchId (batchInfo pendingMessage) = Some True then None
         else Some (getEffectiveBatchId_pending ext pendingMessage)),
      rm_staged = staged (batchInfo pendingMessage),
      rm_squash = sq\<rparr>"

text \<open>
  The body of the outer loop of \<open>replayPendingStates\<close>, after \<open>shift()\<close> has returned
  \<open>front\<close> and the count has been decremented to \<open>remaining\<close>. The result is the error
  thrown, or the count and \<open>seenStagedBatch\<close> with which the loop goes on.
\<close>

definition replayIteration ::
  "externals \<Rightarrow> 'w state_handler \<Rightarrow> bool \<Rightarrow> bool \<Rightarrow> nat \<Rightarrow> bool \<Rightarrow> IPendingMessage \<Rightarrow>
   pending_state \<Rightarrow> 'w \<Rightarrow> (error + nat \<times> bool) \<times> pending_state \<times> 'w" where
  "replayIteration ext h committing sq remaining seenStagedBatch front s w =
     (if committing \<and> \<not> staged (batchInfo front)
      then (if seenStagedBatch then (Inl (AssertFailed 0xb86), s, w)
            else (Inr (remaining, seenStagedBatch),
                  s\<lparr>pendingMessages := pendingMessages s @ [front]\<rparr>, w))
      else
        let seen = (if committing then True else seenStagedBatch);
            pendingMessage = (if committing then clearStagedFlag front else front);
            batchMetadataFlag = batchFlag pendingMessage
        in
        if batchMetadataFlag = Some False then (Inl (AssertFailed 0x41b), s, w)
        else
          let metadata = resubmitMetadata ext sq pendingMessage in
          if isEmptyBatchLocalOpMetadata (localOpMetadata pendingMessage)
          then (case callReSubmitBatch ext h [] metadata s w of
                  (Inl e, s2, w2) \<Rightarrow> (Inl e, s2, w2)
                | (Inr u, s2, w2) \<Rightarrow> (Inr (remaining, seen), s2, w2))
          else if \<not> hasTypicalRuntimeOp pendingMessage
          then (Inl (AssertFailed 0xb87), s, w)
          else if batchMetadataFlag = None
          then (case callReSubmitBatch ext h [resubmitData pendingMessage] metadata s w of
                  (Inl e, s2, w2) \<Rightarrow> (Inl e, s2, w2)
                | (Inr u, s2, w2) \<Rightarrow> (Inr (remaining, seen), s2, w2))
          else if remaining = 0 then (Inl (AssertFailed 0x554), s, w)
          else
            (case collectBatch pendingMessage remaining [] s of
               (Inl e, s2) \<Rightarrow> (Inl e, s2, w)
             | (Inr (batchData, remaining'), s2) \<Rightarrow>
                 (case callReSubmitBatch ext h batchData metadata s2 w of
                    (Inl e, s3, w3) \<Rightarrow> (Inl e, s3, w3)
                  | (Inr u, s3, w3) \<Rightarrow> (Inr (remaining', seen), s3, w3))))"

lemma replayIteration_le:
  assumes "replayIteration ext h committing sq r seen front s w = (Inr (r', seen'), s', w')"
  shows "r' \<le> r"
proof (cases "committing \<and> \<not> staged (batchInfo front)")
  case True
  then show ?thesis using assms by (auto simp: replayIteration_def split: if_splits)
next
  case False
  define pm where "pm = (if committing then clearStagedFlag front else front)"
  show ?thesis
  proof (cases "isEmptyBatchLocalOpMetadata (localOpMetadata pm) \<or> batchFlag pm = None")
    case True
    then show ?thesis
      using assms False
      by (auto simp: replayIteration_def Let_def pm_def split: if_splits prod.splits sum.splits)
  next
    case f: False
    with assms False obtain b s2 where "collectBatch pm r [] s = (Inr (b, r'), s2)"
      by (auto simp: replayIteration_def Let_def pm_def split: if_splits prod.splits sum.splits)
    then show ?thesis by (rule collectBatch_le)
  qed
qed

text \<open>
  The outer loop of \<open>replayPendingStates\<close>: \<open>while (remainingPendingMessagesCount > 0)\<close>,
  \<open>shift()\<close>, decrement, body.
\<close>

function replayLoop ::
  "externals \<Rightarrow> 'w state_handler \<Rightarrow> bool \<Rightarrow> bool \<Rightarrow> nat \<Rightarrow> bool \<Rightarrow> pending_state \<Rightarrow> 'w \<Rightarrow>
   (error + unit) \<times> pending_state \<times> 'w" where
  "replayLoop ext h committing sq remaining seenStagedBatch s w =
     (case remaining of
        0 \<Rightarrow> (Inr (), s, w)
      | Suc r \<Rightarrow>
          (case pendingMessages s of
             [] \<Rightarrow> (Inl TypeError, s, w)
           | front # rest \<Rightarrow>
               (case replayIteration ext h committing sq r seenStagedBatch front
                       (s\<lparr>pendingMessages := rest\<rparr>) w of
                  (Inl e, s', w') \<Rightarrow> (Inl e, s', w')
                | (Inr (r', seen), s', w') \<Rightarrow> replayLoop ext h committing sq r' seen s' w')))"
  by pat_completeness auto
termination
proof (relation "measure (\<lambda>(ext, h, committing, sq, remaining, seen, s, w). remaining)")
  show "wf (measure (\<lambda>(ext, h, committing, sq, remaining, seen, s, w). remaining))"
    by simp
next
  fix ext and h :: "'w state_handler" and committing sq remaining seenStagedBatch s and w :: 'w
    and r front rest x y e xa ya r' seen
  assume "remaining = Suc r"
    and "(x, y) = replayIteration ext h committing sq r seenStagedBatch front
                    (s\<lparr>pendingMessages := rest\<rparr>) w"
    and "x = Inr e" and "(r', seen) = e" and "(xa, ya) = y"
  then have "r' \<le> r"
    using replayIteration_le[of ext h committing sq r seenStagedBatch front
            "s\<lparr>pendingMessages := rest\<rparr>" w r' seen xa ya]
    by simp
  then show "((ext, h, committing, sq, r', seen, xa, ya),
              ext, h, committing, sq, remaining, seenStagedBatch, s, w)
             \<in> measure (\<lambda>(ext, h, committing, sq, remaining, seen, s, w). remaining)"
    using \<open>remaining = Suc r\<close> by simp
qed

declare replayLoop.simps [simp del]

definition replayPendingStates ::
  "externals \<Rightarrow> 'w state_handler \<Rightarrow> replay_options option \<Rightarrow> pending_state \<Rightarrow> 'w \<Rightarrow>
   (error + unit) \<times> pending_state \<times> 'w" where
  "replayPendingStates ext h options s w =
     (let opts = effectiveOptions options;
          committing = committingStagedBatches opts
      in
      if \<not> (connected h w \<or> committing) then (Inl (AssertFailed 0x172), s, w)
      else if \<not> committing \<and> \<not> (clientIdFromLastReplay s \<noteq> clientId h w)
      then (Inl (AssertFailed 0x173), s, w)
      else
        let s1 = s\<lparr>clientIdFromLastReplay := clientId h w\<rparr> in
        if initialMessages s1 \<noteq> [] then (Inl (AssertFailed 0x174), s1, w)
        else
          (case replayLoop ext h committing (squash opts) (length (pendingMessages s1)) False s1 w of
             (Inl e, s2, w2) \<Rightarrow> (Inl e, s2, w2)
           | (Inr u, s2, w2) \<Rightarrow>
               let s3 = s2\<lparr>savedOps := []\<rparr> in
               (Inr (),
                (if isActiveConnection h w2
                 then s3\<lparr>telemetry := telemetry s3 @ [''PendingStatesReplayed'']\<rparr>
                 else s3),
                w2)))"

section \<open>Popping staged batches\<close>

text \<open>
  The loop of \<open>popStagedBatches\<close>. The callback returns nothing; what it does is a change
  of the runtime's state, and it is taken to return normally.
\<close>

function popStagedLoop ::
  "(IPendingMessage \<Rightarrow> 'w \<Rightarrow> 'w) \<Rightarrow> pending_state \<Rightarrow> 'w \<Rightarrow> pending_state \<times> 'w" where
  "popStagedLoop callback s w =
     (if pendingMessages s = [] then (s, w)
      else
        let stagedMessage = last (pendingMessages s) in
        if staged (batchInfo stagedMessage)
        then popStagedLoop callback
               (s\<lparr>pendingMessages := butlast (pendingMessages s)\<rparr>)
               (if hasTypicalRuntimeOp stagedMessage then callback stagedMessage w else w)
        else (s, w))"
  by pat_completeness auto
termination
  by (relation "measure (\<lambda>(callback, s, w). length (pendingMessages s))") auto

declare popStagedLoop.simps [simp del]

definition popStagedBatches ::
  "(IPendingMessage \<Rightarrow> 'w \<Rightarrow> 'w) \<Rightarrow> pending_state \<Rightarrow> 'w \<Rightarrow>
   (error + unit) \<times> pending_state \<times> 'w" where
  "popStagedBatches callback s w =
     (case popStagedLoop callback s w of
        (s', w') \<Rightarrow>
          if list_all (\<lambda>m. \<not> staged (batchInfo m)) (pendingMessages s')
          then (Inr (), s', w')
          else (Inl (AssertFailed 0xb89), s', w'))"

section \<open>Applying stashed ops\<close>

text \<open>
  \<open>isEmptyBatchPendingMessage\<close>. \<open>JSON.parse\<close> may throw, and so does reading \<open>type\<close> of
  \<open>null\<close>; \<open>contents?.length\<close> is \<open>undefined\<close> when \<open>contents\<close> is \<open>undefined\<close> or \<open>null\<close>.
\<close>

definition isEmptyBatchPendingMessage ::
  "externals \<Rightarrow> IPendingMessageFromStash \<Rightarrow> error + bool" where
  "isEmptyBatchPendingMessage ext message =
     (case JSON_parse ext (content message) of
        None \<Rightarrow> Inl SyntaxError
      | Some JNull \<Rightarrow> Inl TypeError
      | Some parsed \<Rightarrow>
          Inr (jsProp parsed ''type'' = Some (JStr ''groupedBatch'') \<and>
               (case jsProp parsed ''contents'' of
                  None \<Rightarrow> False
                | Some JNull \<Rightarrow> False
                | Some c \<Rightarrow> jsProp c ''length'' = Some (JNum 0))))"

text \<open>
  \<open>patchbatchInfo\<close>: a message without \<open>batchInfo\<close> gets one, with the value of the next
  \<open>uuid()\<close> call, whose index in the stream is \<open>k\<close>. The result is the message and the index
  of the next call.
\<close>

definition patchbatchInfo ::
  "externals \<Rightarrow> nat \<Rightarrow> IPendingMessageFromStash \<Rightarrow> IPendingMessage \<times> nat" where
  "patchbatchInfo ext k message =
     (let (info, k') =
            (case batchInfo message of
               None \<Rightarrow>
                 (\<lparr>bi_clientId = uuid ext k, batchStartCsn = - 1, bi_length = - 1,
                   ignoreBatchId = None, staged = False\<rparr>, Suc k)
             | Some bi \<Rightarrow> (bi, k))
      in (\<lparr>referenceSequenceNumber = referenceSequenceNumber message,
           content = content message,
           runtimeOp = runtimeOp message,
           localOpMetadata = localOpMetadata message,
           opMetadata = opMetadata message,
           sequenceNumber = sequenceNumber message,
           batchInfo = info\<rparr>, k'))"

text \<open>
  \<open>applyStashedOpsAt\<close>, one iteration of its loop per call. The two tests on the reference
  sequence number come before \<open>shift()\<close>; everything after it is inside the \<open>try\<close>, whose
  handler wraps the error.
\<close>

function applyStashedOpsAt ::
  "externals \<Rightarrow> 'w state_handler \<Rightarrow> int option \<Rightarrow> nat \<Rightarrow> pending_state \<Rightarrow> 'w \<Rightarrow>
   (error + unit) \<times> pending_state \<times> 'w" where
  "applyStashedOpsAt ext h seqNum k s w =
     (case initialMessages s of
        [] \<Rightarrow> (Inr (), s, w)
      | peekMessage # rest \<Rightarrow>
          if (case seqNum of None \<Rightarrow> False | Some n \<Rightarrow> referenceSequenceNumber peekMessage > n)
          then (Inr (), s, w)
          else if (case seqNum of None \<Rightarrow> False | Some n \<Rightarrow> referenceSequenceNumber peekMessage < n)
          then (Inl (PlainError ''loaded from snapshot too recent to apply stashed ops''), s, w)
          else
            let nextMessage = peekMessage;
                s1 = s\<lparr>initialMessages := rest\<rparr>
            in
            (case isEmptyBatchPendingMessage ext nextMessage of
               Inl e \<Rightarrow> (Inl (wrapIfUnrecognized ext e), s1, w)
             | Inr True \<Rightarrow>
                 (case patchbatchInfo ext k
                         (nextMessage\<lparr>localOpMetadata :=
                                        Some (JObj [(''emptyBatch'', JBool True)])\<rparr>) of
                    (patched, k') \<Rightarrow>
                      applyStashedOpsAt ext h seqNum k'
                        (s1\<lparr>pendingMessages := pendingMessages s1 @ [patched]\<rparr>) w)
             | Inr False \<Rightarrow>
                 (case applyStashedOp h (content nextMessage) w of
                    (Inl e, w') \<Rightarrow> (Inl (wrapIfUnrecognized ext e), s1, w')
                  | (Inr md, w') \<Rightarrow>
                      if isAttached h w'
                      then (case JSON_parse ext (content nextMessage) of
                              None \<Rightarrow> (Inl (wrapIfUnrecognized ext SyntaxError), s1, w')
                            | Some parsed \<Rightarrow>
                                (case patchbatchInfo ext k
                                        (nextMessage\<lparr>localOpMetadata := md,
                                                      runtimeOp := Some parsed\<rparr>) of
                                   (patched, k') \<Rightarrow>
                                     applyStashedOpsAt ext h seqNum k'
                                       (s1\<lparr>pendingMessages := pendingMessages s1 @ [patched]\<rparr>)
                                       w'))
                      else if md \<noteq> None
                      then (Inl (wrapIfUnrecognized ext
                                   (PlainError
                                      ''Local Op Metadata must be undefined when not attached'')),
                            s1, w')
                      else applyStashedOpsAt ext h seqNum k s1 w')))"
  by pat_completeness auto
termination
  by (relation "measure (\<lambda>(ext, h, seqNum, k, s, w). length (initialMessages s))") auto

declare applyStashedOpsAt.simps [simp del]

section \<open>Example instances\<close>

text \<open>
  A serializer for the examples: integers in decimal, strings without escapes, no white
  space. The example externals use it for \<open>JSON.stringify\<close> and \<open>serializeOp\<close>, and derive
  the effective batch id from the stamped batch id or else from client id and sequence number.
\<close>

fun string_of_nat :: "nat \<Rightarrow> string" where
  "string_of_nat n =
     (if n < 10 then [''0123456789'' ! n]
      else string_of_nat (n div 10) @ [''0123456789'' ! (n mod 10)])"

fun commaSep :: "string list \<Rightarrow> string" where
  "commaSep [] = []"
| "commaSep [x] = x"
| "commaSep (x # y # ys) = x @ '','' @ commaSep (y # ys)"

fun show_json :: "json \<Rightarrow> string" where
  "show_json JNull = ''null''"
| "show_json (JBool b) = (if b then ''true'' else ''false'')"
| "show_json (JNum i) =
     (if i < 0 then ''-'' @ string_of_nat (nat (- i)) else string_of_nat (nat i))"
| "show_json (JStr s) = ''\"'' @ s @ ''\"''"
| "show_json (JArr xs) = ''['' @ commaSep (map show_json xs) @ '']''"
| "show_json (JObj kvs) =
     ''{'' @ commaSep (map (\<lambda>kv. ''\"'' @ fst kv @ ''\":'' @ show_json (snd kv)) kvs) @ ''}''"

definition example_batchId :: "string option \<Rightarrow> string \<Rightarrow> int \<Rightarrow> string" where
  "example_batchId stamped cid csn =
     (case stamped of
        Some b \<Rightarrow> b
      | None \<Rightarrow> cid @ ''_['' @ show_json (JNum csn) @ '']'')"

definition example_op :: "int \<Rightarrow> runtime_op" where
  "example_op x = JObj [(''type'', JStr ''op''), (''contents'', JObj [(''x'', JNum x)])]"

text \<open>The example parser knows the texts of the values that the examples serialize.\<close>

definition example_ext :: externals where
  "example_ext =
     \<lparr>JSON_stringify = show_json,
      JSON_parse = (\<lambda>s. List.find (\<lambda>j. show_json j = s)
                          [JObj [(''type'', JStr ''groupedBatch''), (''contents'', JArr [])],
                           example_op 1, example_op 2, example_op 3]),
      serializeOp = show_json,
      getEffectiveBatchId_pending =
        (\<lambda>m. example_batchId (case opMetadata m of None \<Rightarrow> None | Some md \<Rightarrow> batchId md)
               (bi_clientId (batchInfo m)) (batchStartCsn (batchInfo m))),
      getEffectiveBatchId_inbound =
        (\<lambda>b. example_batchId (bs_batchId b) (bs_clientId b) (bs_batchStartCsn b)),
      wrapIfUnrecognized =
        (\<lambda>e. case e of DataProcessingError m \<Rightarrow> e | _ \<Rightarrow> DataProcessingError ''applyStashedOp''),
      uuid = (\<lambda>k. ''uuid-'' @ string_of_nat k)\<rparr>"

definition example_local :: "int \<Rightarrow> op_metadata option \<Rightarrow> local_batch_message" where
  "example_local x md =
     \<lparr>lbm_runtimeOp = example_op x,
      lbm_referenceSequenceNumber = 10,
      lbm_localOpMetadata = Some (JNum x),
      lbm_metadata = md\<rparr>"

definition example_ack :: "int \<Rightarrow> int \<Rightarrow> inbound_message" where
  "example_ack x n =
     \<lparr>msg_type = ''op'', msg_contents = Some (JObj [(''x'', JNum x)]), msg_sequenceNumber = n\<rparr>"

definition example_placeholder :: local_batch_message where
  "example_placeholder =
     \<lparr>lbm_runtimeOp = JObj [(''type'', JStr ''groupedBatch''), (''contents'', JArr [])],
      lbm_referenceSequenceNumber = 10,
      lbm_localOpMetadata = Some (JObj [(''emptyBatch'', JBool True)]),
      lbm_metadata = Some \<lparr>batch = None, batchId = Some ''B1''\<rparr>\<rparr>"

definition example_batchStart :: "string option \<Rightarrow> string \<Rightarrow> int \<Rightarrow> batch_start_info" where
  "example_batchStart stamped cid csn =
     \<lparr>bs_batchId = stamped, bs_clientId = cid, bs_batchStartCsn = csn,
      keyMessage_sequenceNumber = 100\<rparr>"

definition example_pending :: "int \<Rightarrow> op_metadata option \<Rightarrow> bool option \<Rightarrow> bool \<Rightarrow> IPendingMessage" where
  "example_pending x md ign stg =
     newPendingMessage example_ext
       \<lparr>bi_clientId = ''A'', batchStartCsn = 5, bi_length = 1, ignoreBatchId = ign, staged = stg\<rparr>
       (example_local x md)"

definition example_stashed :: "int \<Rightarrow> string \<Rightarrow> IPendingMessageFromStash" where
  "example_stashed refSeq c =
     \<lparr>referenceSequenceNumber = refSeq, content = c, runtimeOp = None,
      localOpMetadata = None, opMetadata = None, sequenceNumber = None, batchInfo = None\<rparr>"

definition example_stash_handler :: "string list state_handler" where
  "example_stash_handler =
     \<lparr>connected = (\<lambda>w. True),
      clientId = (\<lambda>w. Some ''A''),
      applyStashedOp = (\<lambda>c w. (Inr (Some (JStr ''applied'')), w @ [c])),
      reSubmitBatch = (\<lambda>b m w. (([], None), w)),
      isActiveConnection = (\<lambda>w. True),
      isAttached = (\<lambda>w. True)\<rparr>"

definition example_replay_handler ::
  "(resubmit_data list \<times> flush_call list) list state_handler" where
  "example_replay_handler =
     \<lparr>connected = (\<lambda>w. True),
      clientId = (\<lambda>w. Some ''A''),
      applyStashedOp = (\<lambda>c w. (Inr None, w)),
      reSubmitBatch =
        (\<lambda>batchData metadata w.
           let calls =
                 [\<lparr>fc_handlerClientId = Some ''A'', fc_uuidValue = ''u'',
                   fc_batch =
                     map (\<lambda>d. \<lparr>lbm_runtimeOp = (case rd_runtimeOp d of None \<Rightarrow> JNull | Some x \<Rightarrow> x),
                                lbm_referenceSequenceNumber = 20,
                                lbm_localOpMetadata = rd_localOpMetadata d,
                                lbm_metadata = rd_opMetadata d\<rparr>)
                         batchData,
                   fc_clientSequenceNumber = Some 1, fc_staged = False,
                   fc_ignoreBatchId = None\<rparr>]
           in ((calls, None), w @ [(batchData, calls)])),
      isActiveConnection = (\<lambda>w. True),
      isAttached = (\<lambda>w. True)\<rparr>"

definition example_batch3 :: "local_batch_message list" where
  "example_batch3 =
     [example_local 1 (Some \<lparr>batch = Some True, batchId = None\<rparr>),
      example_local 2 None,
      example_local 3 (Some \<lparr>batch = Some False, batchId = None\<rparr>)]"

definition example_marked :: "local_batch_message \<Rightarrow> local_batch_message" where
  "example_marked m = m\<lparr>lbm_localOpMetadata := Some (JObj [(''emptyBatch'', JBool True)])\<rparr>"

definition example_committing :: "replay_options option" where
  "example_committing = Some \<lparr>committingStagedBatches = True, squash = False\<rparr>"

section \<open>Notions used in the statements\<close>

text \<open>The pending messages that a flush call appends when it succeeds.\<close>

definition flushedMessages :: "externals \<Rightarrow> flush_call \<Rightarrow> IPendingMessage list" where
  "flushedMessages ext c =
     pendingMessages
       (snd (onFlushBatch ext (fc_handlerClientId c) (fc_uuidValue c) (fc_batch c)
               (fc_clientSequenceNumber c) (fc_staged c) (fc_ignoreBatchId c)
               (newPendingStateManager None)))"

text \<open>
  What a sequence of \<open>reSubmitBatch\<close> calls stands for, message by message: an empty batch is
  one placeholder (\<open>None\<close>), any other batch is its ops in order. \<open>itemOf\<close> relates such an
  item to the pending message it was made from.
\<close>

definition replayedItems :: "(resubmit_data list \<times> 'x) list \<Rightarrow> resubmit_data option list" where
  "replayedItems calls =
     concat (map (\<lambda>(batchData, x). if batchData = [] then [None] else map Some batchData) calls)"

definition itemOf :: "resubmit_data option \<Rightarrow> IPendingMessage \<Rightarrow> bool" where
  "itemOf item message =
     (case item of
        None \<Rightarrow> isEmptyBatchLocalOpMetadata (localOpMetadata message)
      | Some d \<Rightarrow> d = resubmitData message)"

text \<open>The resubmit data of the pending message that \<open>onFlushBatch\<close> builds for \<open>m\<close>.\<close>

definition toResubmitData :: "local_batch_message \<Rightarrow> resubmit_data" where
  "toResubmitData m =
     \<lparr>rd_runtimeOp = Some (lbm_runtimeOp m),
      rd_localOpMetadata = lbm_localOpMetadata m,
      rd_opMetadata = lbm_metadata m\<rparr>"

section \<open>Properties of ack processing\<close>

lemma zip_matching:
  "list_all2 (\<lambda>m p. buildPendingMessageContent ext m = content p) ms pms \<Longrightarrow>
   pendingMessages s = pms @ rest \<Longrightarrow>
   zipLocalOpMetadata ext ms s =
     (Inr (map2 (\<lambda>m p. (m, Some (localOpMetadata p))) ms pms),
      s\<lparr>savedOps := savedOps s @
            map2 (\<lambda>m p. toSerializableForm (p\<lparr>sequenceNumber := Some (msg_sequenceNumber m)\<rparr>)) ms pms,
        pendingMessages := rest\<rparr>)"
proof (induction ms pms arbitrary: s rule: list_all2_induct)
  case Nil
  then show ?case by simp
next
  case (Cons m ms p pms)
  have step: "processNextPendingMessage ext (msg_sequenceNumber m) (Some m) s =
        (Inr (localOpMetadata p),
         s\<lparr>savedOps := savedOps s @ [toSerializableForm (p\<lparr>sequenceNumber := Some (msg_sequenceNumber m)\<rparr>)],
           pendingMessages := pms @ rest\<rparr>)"
    using Cons.hyps Cons.prems by (simp add: processNextPendingMessage_def Let_def)
  show ?case
    by (simp add: step Cons.IH)
qed

lemma onFlushBatch_ok:
  "onFlushBatch ext cid u batchMsgs csn stg ign s = (Inr (), s') \<Longrightarrow>
   \<exists>info. s' = s\<lparr>pendingMessages := pendingMessages s @ map (newPendingMessage ext info) batchMsgs\<rparr>
         \<and> staged info = stg \<and> ignoreBatchId info = ign \<and> bi_length info = int (length batchMsgs)"
  by (auto simp: onFlushBatch_def Let_def split: if_splits option.splits prod.splits)

text \<open>
  C1 (order preservation). Messages appended by \<open>onFlushBatch\<close> behind the messages already
  pending are acknowledged in push order: when each inbound message re-serializes to the
  stored content of the pending message at its position, no call of
  \<open>processNextPendingMessage\<close> throws, the local op metadata come back in push order, and the
  queue ends empty.
\<close>

theorem order_preservation:
  assumes flush: "onFlushBatch ext cid u batchMsgs csn stg ign s0 = (Inr (), s1)"
    and before: "list_all2 (\<lambda>m p. buildPendingMessageContent ext m = content p)
                   acksBefore (pendingMessages s0)"
    and acks: "list_all2 (\<lambda>m b. buildPendingMessageContent ext m = serializeOp ext (lbm_runtimeOp b))
                 acks batchMsgs"
  shows "fst (zipLocalOpMetadata ext (acksBefore @ acks) s1) =
           Inr (map2 (\<lambda>m p. (m, Some (localOpMetadata p))) acksBefore (pendingMessages s0) @
                map2 (\<lambda>m b. (m, Some (lbm_localOpMetadata b))) acks batchMsgs) \<and>
         pendingMessages (snd (zipLocalOpMetadata ext (acksBefore @ acks) s1)) = []"
proof -
  obtain info where s1: "s1 = s0\<lparr>pendingMessages := pendingMessages s0 @
                                   map (newPendingMessage ext info) batchMsgs\<rparr>"
    using onFlushBatch_ok[OF flush] by blast
  let ?new = "map (newPendingMessage ext info) batchMsgs"
  have len1: "length acksBefore = length (pendingMessages s0)"
    using before by (rule list_all2_lengthD)
  have len2: "length acks = length batchMsgs"
    using acks by (rule list_all2_lengthD)
  have acks': "list_all2 (\<lambda>m p. buildPendingMessageContent ext m = content p) acks ?new"
    using acks by (simp add: list_all2_map2 newPendingMessage_def)
  have all: "list_all2 (\<lambda>m p. buildPendingMessageContent ext m = content p)
               (acksBefore @ acks) (pendingMessages s0 @ ?new)"
    using before acks' by (rule list_all2_appendI)
  have q: "pendingMessages s1 = (pendingMessages s0 @ ?new) @ []"
    by (simp add: s1)
  have md: "map2 (\<lambda>m p. (m, Some (localOpMetadata p))) acks ?new =
            map2 (\<lambda>m b. (m, Some (lbm_localOpMetadata b))) acks batchMsgs"
    by (simp add: zip_map2 newPendingMessage_def split_def)
  show ?thesis
    unfolding zip_matching[OF all q]
    by (simp add: len1 md)
qed


text \<open>Two ops flushed as one batch with client sequence number 5, then acknowledged.\<close>

theorem order_preservation_witness:
  "onFlushBatch example_ext (Some ''A'') ''u'' [example_local 1 None, example_local 2 None]
     (Some 5) False None (newPendingStateManager None) =
     (Inr (),
      (newPendingStateManager None)\<lparr>pendingMessages :=
         map (newPendingMessage example_ext
               \<lparr>bi_clientId = ''A'', batchStartCsn = 5, bi_length = 2,
                ignoreBatchId = None, staged = False\<rparr>)
           [example_local 1 None, example_local 2 None]\<rparr>) \<and>
   list_all2 (\<lambda>m p. buildPendingMessageContent example_ext m = content p)
     [] (pendingMessages (newPendingStateManager None)) \<and>
   list_all2 (\<lambda>m b. buildPendingMessageContent example_ext m =
                      serializeOp example_ext (lbm_runtimeOp b))
     [example_ack 1 100, example_ack 2 101] [example_local 1 None, example_local 2 None] \<and>
   fst (zipLocalOpMetadata example_ext ([] @ [example_ack 1 100, example_ack 2 101])
         ((newPendingStateManager None)\<lparr>pendingMessages :=
            map (newPendingMessage example_ext
                  \<lparr>bi_clientId = ''A'', batchStartCsn = 5, bi_length = 2,
                   ignoreBatchId = None, staged = False\<rparr>)
              [example_local 1 None, example_local 2 None]\<rparr>)) =
     Inr [(example_ack 1 100, Some (Some (JNum 1))), (example_ack 2 101, Some (Some (JNum 2)))]"
proof -
  have flush: "onFlushBatch example_ext (Some ''A'') ''u'' [example_local 1 None, example_local 2 None]
     (Some 5) False None (newPendingStateManager None) =
     (Inr (),
      (newPendingStateManager None)\<lparr>pendingMessages :=
         map (newPendingMessage example_ext
               \<lparr>bi_clientId = ''A'', batchStartCsn = 5, bi_length = 2,
                ignoreBatchId = None, staged = False\<rparr>)
           [example_local 1 None, example_local 2 None]\<rparr>)"
    by (simp add: onFlushBatch_def newPendingStateManager_def)
  have before: "list_all2 (\<lambda>m p. buildPendingMessageContent example_ext m = content p)
     [] (pendingMessages (newPendingStateManager None))"
    by (simp add: newPendingStateManager_def)
  have acks: "list_all2 (\<lambda>m b. buildPendingMessageContent example_ext m =
                      serializeOp example_ext (lbm_runtimeOp b))
     [example_ack 1 100, example_ack 2 101] [example_local 1 None, example_local 2 None]"
    by (simp add: buildPendingMessageContent_def example_ext_def example_ack_def
          example_local_def example_op_def)
  show ?thesis
    using order_preservation[OF flush before acks] flush before acks
    by (simp add: example_local_def example_ack_def newPendingStateManager_def)
qed

text \<open>
  C2 (content mismatch detection). When the re-serialization of the inbound message differs
  from the stored content of the front pending message, \<open>processNextPendingMessage\<close> throws
  and never returns the local op metadata. What it throws is the data-processing error,
  after the \<open>unexpectedAckReceived\<close> event, whenever both strings are JSON texts of values
  other than \<open>null\<close>, as the outputs of \<open>serializeOp\<close> and of \<open>JSON.stringify\<close> on an
  object are; on any other string the parsing done for the telemetry throws first.
\<close>

theorem content_mismatch_detection:
  assumes "pendingMessages s = front # rest"
    and "buildPendingMessageContent ext message \<noteq> content front"
  shows "fst (processNextPendingMessage ext seqNum (Some message) s) \<in>
           {Inl (DataProcessingError ''pending local message content mismatch''),
            Inl SyntaxError, Inl TypeError} \<and>
         (\<forall>a b. JSON_parse ext (content front) = Some a \<and> a \<noteq> JNull \<and>
                JSON_parse ext (buildPendingMessageContent ext message) = Some b \<and> b \<noteq> JNull \<longrightarrow>
            fst (processNextPendingMessage ext seqNum (Some message) s) =
              Inl (DataProcessingError ''pending local message content mismatch'') \<and>
            telemetry (snd (processNextPendingMessage ext seqNum (Some message) s)) =
              telemetry s @ [''unexpectedAckReceived''])"
  using assms
  by (auto simp: processNextPendingMessage_def Let_def split: option.splits)

text \<open>The example of the specification: pending \<open>{"x":1}\<close>, acknowledged as \<open>{"x":2}\<close>.\<close>

theorem content_mismatch_detection_witness:
  "content (example_pending 1 None None False) = ''{\"type\":\"op\",\"contents\":{\"x\":1}}'' \<and>
   buildPendingMessageContent example_ext (example_ack 2 100) =
      ''{\"type\":\"op\",\"contents\":{\"x\":2}}'' \<and>
   JSON_parse example_ext (content (example_pending 1 None None False)) = Some (example_op 1) \<and>
   JSON_parse example_ext (buildPendingMessageContent example_ext (example_ack 2 100)) =
     Some (example_op 2) \<and>
   fst (processNextPendingMessage example_ext 100 (Some (example_ack 2 100))
         ((newPendingStateManager None)\<lparr>pendingMessages :=
            [example_pending 1 None None False]\<rparr>)) =
     Inl (DataProcessingError ''pending local message content mismatch'')"
proof -
  have c1: "content (example_pending 1 None None False) =
              ''{\"type\":\"op\",\"contents\":{\"x\":1}}''"
    by (simp add: example_pending_def newPendingMessage_def example_ext_def example_local_def
          example_op_def)
  have c2: "buildPendingMessageContent example_ext (example_ack 2 100) =
      ''{\"type\":\"op\",\"contents\":{\"x\":2}}''"
    by (simp add: buildPendingMessageContent_def example_ext_def example_ack_def)
  have p1: "JSON_parse example_ext (content (example_pending 1 None None False)) =
              Some (example_op 1)"
    unfolding c1 by (simp add: example_ext_def example_op_def)
  have p2: "JSON_parse example_ext (buildPendingMessageContent example_ext (example_ack 2 100)) =
              Some (example_op 2)"
    unfolding c2 by (simp add: example_ext_def example_op_def)
  have q: "pendingMessages ((newPendingStateManager None)\<lparr>pendingMessages :=
            [example_pending 1 None None False]\<rparr>) =
           example_pending 1 None None False # []"
    by simp
  have ne: "buildPendingMessageContent example_ext (example_ack 2 100) \<noteq>
            content (example_pending 1 None None False)"
    unfolding c1 c2 by simp
  have nn: "example_op 1 \<noteq> JNull" "example_op 2 \<noteq> JNull"
    by (simp_all add: example_op_def)
  show ?thesis
    using content_mismatch_detection[OF q ne, of 100, THEN conjunct2, rule_format,
            of "example_op 1" "example_op 2"] c1 c2 p1 p2 nn
    by simp
qed

text \<open>
  C10 (the mismatch error is not atomic). Whenever \<open>processNextPendingMessage\<close> throws the
  content-mismatch error, the front pending message has been removed from the queue, and
  the last saved op is its serializable form stamped with the inbound sequence number: the
  front message with \<open>sequenceNumber\<close> set and with \<open>localOpMetadata\<close> and \<open>runtimeOp\<close>
  removed, every other property as it was.
\<close>

theorem mismatch_not_rolled_back:
  assumes "fst (processNextPendingMessage ext seqNum message s) =
             Inl (DataProcessingError ''pending local message content mismatch'')"
  shows "pendingMessages s \<noteq> [] \<and>
         pendingMessages (snd (processNextPendingMessage ext seqNum message s)) =
           tl (pendingMessages s) \<and>
         savedOps (snd (processNextPendingMessage ext seqNum message s)) =
           savedOps s @
           [(hd (pendingMessages s))\<lparr>sequenceNumber := Some seqNum,
                                      localOpMetadata := None, runtimeOp := None\<rparr>] \<and>
         savedOps (snd (processNextPendingMessage ext seqNum message s)) =
           savedOps s @
           [toSerializableForm ((hd (pendingMessages s))\<lparr>sequenceNumber := Some seqNum\<rparr>)] \<and>
         sequenceNumber (last (savedOps (snd (processNextPendingMessage ext seqNum message s)))) =
           Some seqNum \<and>
         runtimeOp (last (savedOps (snd (processNextPendingMessage ext seqNum message s)))) =
           None \<and>
         localOpMetadata (last (savedOps (snd (processNextPendingMessage ext seqNum message s)))) =
           None"
  using assms
  by (auto simp: processNextPendingMessage_def Let_def toSerializableForm_def
           split: list.splits option.splits if_splits)

text \<open>
  The mismatch of the examples: the pending message had a runtime op and local op metadata,
  the saved op has neither.
\<close>

theorem mismatch_not_rolled_back_witness:
  "fst (processNextPendingMessage example_ext 100 (Some (example_ack 2 100))
         ((newPendingStateManager None)\<lparr>pendingMessages :=
            [example_pending 1 None None False]\<rparr>)) =
     Inl (DataProcessingError ''pending local message content mismatch'') \<and>
   runtimeOp (example_pending 1 None None False) = Some (example_op 1) \<and>
   localOpMetadata (example_pending 1 None None False) = Some (JNum 1) \<and>
   pendingMessages (snd (processNextPendingMessage example_ext 100 (Some (example_ack 2 100))
         ((newPendingStateManager None)\<lparr>pendingMessages :=
            [example_pending 1 None None False]\<rparr>))) = [] \<and>
   savedOps (snd (processNextPendingMessage example_ext 100 (Some (example_ack 2 100))
         ((newPendingStateManager None)\<lparr>pendingMessages :=
            [example_pending 1 None None False]\<rparr>))) =
     [\<lparr>referenceSequenceNumber = 10,
       content = ''{\"type\":\"op\",\"contents\":{\"x\":1}}'',
       runtimeOp = None,
       localOpMetadata = None,
       opMetadata = None,
       sequenceNumber = Some 100,
       batchInfo = \<lparr>bi_clientId = ''A'', batchStartCsn = 5, bi_length = 1,
                    ignoreBatchId = None, staged = False\<rparr>\<rparr>]"
proof -
  have thrown: "fst (processNextPendingMessage example_ext 100 (Some (example_ack 2 100))
         ((newPendingStateManager None)\<lparr>pendingMessages :=
            [example_pending 1 None None False]\<rparr>)) =
     Inl (DataProcessingError ''pending local message content mismatch'')"
    by (simp add: processNextPendingMessage_def buildPendingMessageContent_def
          example_pending_def newPendingMessage_def example_ext_def example_ack_def
          example_local_def example_op_def)
  have front: "runtimeOp (example_pending 1 None None False) = Some (example_op 1)"
    "localOpMetadata (example_pending 1 None None False) = Some (JNum 1)"
    by (simp_all add: example_pending_def newPendingMessage_def example_local_def)
  have pm: "(example_pending 1 None None False)\<lparr>sequenceNumber := Some 100,
                localOpMetadata := None, runtimeOp := None\<rparr> =
     \<lparr>referenceSequenceNumber = 10,
       content = ''{\"type\":\"op\",\"contents\":{\"x\":1}}'',
       runtimeOp = None,
       localOpMetadata = None,
       opMetadata = None,
       sequenceNumber = Some 100,
       batchInfo = \<lparr>bi_clientId = ''A'', batchStartCsn = 5, bi_length = 1,
                    ignoreBatchId = None, staged = False\<rparr>\<rparr>"
    by (simp add: example_pending_def newPendingMessage_def example_local_def example_ext_def
          example_op_def)
  show ?thesis
    using mismatch_not_rolled_back[OF thrown, THEN conjunct2, THEN conjunct2, THEN conjunct1]
          mismatch_not_rolled_back[OF thrown, THEN conjunct2, THEN conjunct1]
          thrown front
    by (simp add: newPendingStateManager_def pm)
qed

section \<open>Remote batches and empty batches\<close>




text \<open>
  C9 as stated fails: the ack of a flushed empty-batch placeholder makes
  \<open>processInboundMessages\<close> return the empty list, which holds no local op metadata.
\<close>

theorem empty_batch_ack_returns_empty_list:
  "fst (processInboundMessages example_ext
          (FullBatch [] (example_batchStart (Some ''B1'') ''A'' 5) 0) True
          (snd (onFlushEmptyBatch example_ext (Some ''A'') ''u'' example_placeholder (Some 5) False
                  (newPendingStateManager None)))) = Inr []"
  by (simp add: processInboundMessages_def processPendingLocalMessages_def onLocalBatchBegin_def
        processNextPendingMessage_def onFlushEmptyBatch_def onFlushBatch_def
        newPendingStateManager_def newPendingMessage_def example_placeholder_def
        example_batchStart_def isEmptyBatchLocalOpMetadata_def Let_def)

lemma onLocalBatchBegin_unstaged:
  "pendingMessages s = front # rest \<Longrightarrow> \<not> staged (batchInfo front) \<Longrightarrow>
   fst (onLocalBatchBegin b n s) = Inr () \<and>
   pendingMessages (snd (onLocalBatchBegin b n s)) = pendingMessages s \<and>
   savedOps (snd (onLocalBatchBegin b n s)) = savedOps s"
  by (simp add: onLocalBatchBegin_def Let_def)

text \<open>
  C9, amended (empty-batch round trip). After a placeholder that is not staged is flushed
  onto an empty queue, the ack of a zero-length batch empties the queue, whatever messages
  the inbound result carries and whatever the content of the placeholder: no content is
  compared. The call of \<open>processNextPendingMessage\<close> inside returns the local op metadata of
  the placeholder, and \<open>processInboundMessages\<close> asserts that it is the empty-batch marker:
  it returns the empty list when it is, and fails assertion \<open>0xa20\<close> when it is not.
\<close>

theorem empty_batch_round_trip:
  assumes empty: "pendingMessages s0 = []"
    and flush: "onFlushEmptyBatch ext cid u placeholder csn False s0 = (Inr (), s1)"
  shows "fst (processInboundMessages ext (FullBatch msgs b 0) True s1) =
           (if isEmptyBatchLocalOpMetadata (lbm_localOpMetadata placeholder) then Inr []
            else Inl (AssertFailed 0xa20)) \<and>
         pendingMessages (snd (processInboundMessages ext (FullBatch msgs b 0) True s1)) = [] \<and>
         fst (processNextPendingMessage ext (keyMessage_sequenceNumber b) None s1) =
           Inr (lbm_localOpMetadata placeholder)"
proof -
  obtain info where s1: "s1 = s0\<lparr>pendingMessages := pendingMessages s0 @
                                   map (newPendingMessage ext info) [placeholder]\<rparr>"
    and stg: "staged info = False"
    using onFlushBatch_ok[OF flush[unfolded onFlushEmptyBatch_def]] by blast
  let ?pm = "newPendingMessage ext info placeholder"
  have q: "pendingMessages s1 = ?pm # []" by (simp add: s1 empty)
  have unst: "\<not> staged (batchInfo ?pm)" by (simp add: newPendingMessage_def stg)
  note lbb = onLocalBatchBegin_unstaged[OF q unst, of b "Some 0"]
  obtain s1' where b1: "onLocalBatchBegin b (Some 0) s1 = (Inr (), s1')"
    and q': "pendingMessages s1' = [?pm]"
    using lbb q by (cases "onLocalBatchBegin b (Some 0) s1") auto
  have md: "localOpMetadata ?pm = lbm_localOpMetadata placeholder"
    by (simp add: newPendingMessage_def)
  have next1: "fst (processNextPendingMessage ext n None s1') = Inr (lbm_localOpMetadata placeholder) \<and>
        pendingMessages (snd (processNextPendingMessage ext n None s1')) = []" for n
    by (simp add: processNextPendingMessage_def q' Let_def md)
  have next0: "fst (processNextPendingMessage ext n None s1) = Inr (lbm_localOpMetadata placeholder)" for n
    by (simp add: processNextPendingMessage_def q Let_def md)
  show ?thesis
    using next1[of "keyMessage_sequenceNumber b"] next0
    by (cases "processNextPendingMessage ext (keyMessage_sequenceNumber b) None s1'")
       (simp add: processInboundMessages_def processPendingLocalMessages_def b1)
qed

text \<open>
  The placeholder of the examples, flushed with client sequence number 5, is acknowledged
  with the empty list; an op without the marker flushed the same way fails \<open>0xa20\<close>.
\<close>

theorem empty_batch_round_trip_witness:
  "pendingMessages (newPendingStateManager None) = [] \<and>
   fst (onFlushEmptyBatch example_ext (Some ''A'') ''u'' example_placeholder (Some 5) False
          (newPendingStateManager None)) = Inr () \<and>
   isEmptyBatchLocalOpMetadata (lbm_localOpMetadata example_placeholder) \<and>
   fst (processInboundMessages example_ext
          (FullBatch [] (example_batchStart (Some ''B1'') ''A'' 5) 0) True
          (snd (onFlushEmptyBatch example_ext (Some ''A'') ''u'' example_placeholder (Some 5) False
                  (newPendingStateManager None)))) = Inr [] \<and>
   fst (processNextPendingMessage example_ext 100 None
          (snd (onFlushEmptyBatch example_ext (Some ''A'') ''u'' example_placeholder (Some 5) False
                  (newPendingStateManager None)))) =
     Inr (Some (JObj [(''emptyBatch'', JBool True)])) \<and>
   fst (onFlushEmptyBatch example_ext (Some ''A'') ''u'' (example_local 1 None) (Some 5) False
          (newPendingStateManager None)) = Inr () \<and>
   \<not> isEmptyBatchLocalOpMetadata (lbm_localOpMetadata (example_local 1 None)) \<and>
   fst (processInboundMessages example_ext
          (FullBatch [] (example_batchStart None ''A'' 5) 0) True
          (snd (onFlushEmptyBatch example_ext (Some ''A'') ''u'' (example_local 1 None) (Some 5)
                  False (newPendingStateManager None)))) = Inl (AssertFailed 0xa20)"
proof -
  have marker: "isEmptyBatchLocalOpMetadata (lbm_localOpMetadata example_placeholder)"
    by (simp add: isEmptyBatchLocalOpMetadata_def example_placeholder_def)
  have noMarker: "\<not> isEmptyBatchLocalOpMetadata (lbm_localOpMetadata (example_local 1 None))"
    by (simp add: isEmptyBatchLocalOpMetadata_def example_local_def)
  have empty: "pendingMessages (newPendingStateManager None) = []"
    by (simp add: newPendingStateManager_def)
  have flush: "onFlushEmptyBatch example_ext (Some ''A'') ''u'' p (Some 5) False
          (newPendingStateManager None) =
        (Inr (), snd (onFlushEmptyBatch example_ext (Some ''A'') ''u'' p (Some 5)
                        False (newPendingStateManager None)))" for p
    by (simp add: onFlushEmptyBatch_def onFlushBatch_def)
  have ok: "fst (onFlushEmptyBatch example_ext (Some ''A'') ''u'' p (Some 5) False
          (newPendingStateManager None)) = Inr ()" for p
    by (simp add: onFlushEmptyBatch_def onFlushBatch_def)
  have md: "lbm_localOpMetadata example_placeholder = Some (JObj [(''emptyBatch'', JBool True)])"
    by (simp add: example_placeholder_def)
  show ?thesis
    using empty_batch_round_trip[OF empty flush[of example_placeholder],
            of "[]" "example_batchStart (Some ''B1'') ''A'' 5"]
          empty_batch_round_trip[OF empty flush[of "example_local 1 None"],
            of "[]" "example_batchStart None ''A'' 5"]
          marker noMarker empty ok
    by (simp add: example_batchStart_def md)
qed

section \<open>Staged batches and stashed ops\<close>

lemma popStagedLoop_suffix:
  "pendingMessages s = pre @ suf \<Longrightarrow> \<forall>m\<in>set suf. staged (batchInfo m) \<Longrightarrow>
   pre = [] \<or> \<not> staged (batchInfo (last pre)) \<Longrightarrow>
   popStagedLoop callback s w =
     (s\<lparr>pendingMessages := pre\<rparr>, fold callback (filter hasTypicalRuntimeOp (rev suf)) w)"
proof (induction suf arbitrary: s w rule: rev_induct)
  case Nil
  then show ?case
    by (subst popStagedLoop.simps) (auto simp: Let_def)
next
  case (snoc m suf)
  have bl: "butlast (pendingMessages s) = pre @ suf"
    using snoc.prems(1) by (simp add: butlast_append)
  have q: "pendingMessages (s\<lparr>pendingMessages := pre @ suf\<rparr>) = pre @ suf"
    by simp
  have st: "\<forall>m\<in>set suf. staged (batchInfo m)" using snoc.prems(2) by simp
  have m: "staged (batchInfo m)" "last (pendingMessages s) = m" "pendingMessages s \<noteq> []"
    using snoc.prems(1,2) by simp_all
  note ih = snoc.IH[OF q st snoc.prems(3)]
  show ?case
    by (subst popStagedLoop.simps) (simp add: m bl ih Let_def)
qed

text \<open>
  C7 (staged pop). When the queue ends with staged messages \<open>suf\<close> behind a message that is
  not staged (or behind nothing), \<open>popStagedBatches\<close> removes \<open>suf\<close>, calls the callback on
  its messages that have a typical runtime op from the back to the front, and leaves \<open>pre\<close>.
  It returns normally exactly when no message of \<open>pre\<close> is staged; otherwise the final
  assertion fails.
\<close>

theorem staged_pop:
  assumes "pendingMessages s = pre @ suf"
    and "\<forall>m\<in>set suf. staged (batchInfo m)"
    and "pre = [] \<or> \<not> staged (batchInfo (last pre))"
  shows "popStagedBatches callback s w =
           ((if \<forall>m\<in>set pre. \<not> staged (batchInfo m) then Inr () else Inl (AssertFailed 0xb89)),
            s\<lparr>pendingMessages := pre\<rparr>,
            fold callback (filter hasTypicalRuntimeOp (rev suf)) w)"
  unfolding popStagedBatches_def popStagedLoop_suffix[OF assms]
  by (simp add: list_all_iff)

text \<open>The queue \<open>[m1 (not staged), m2 (staged), m3 (staged)]\<close> with a callback that records.\<close>

theorem staged_pop_witness:
  "popStagedBatches (\<lambda>m w. w @ [m])
     ((newPendingStateManager None)\<lparr>pendingMessages :=
        [example_pending 1 None None False] @
        [example_pending 2 None None True, example_pending 3 None None True]\<rparr>) [] =
     (Inr (),
      (newPendingStateManager None)\<lparr>pendingMessages := [example_pending 1 None None False]\<rparr>,
      [example_pending 3 None None True, example_pending 2 None None True])"
proof -
  have q: "pendingMessages ((newPendingStateManager None)\<lparr>pendingMessages :=
        [example_pending 1 None None False] @
        [example_pending 2 None None True, example_pending 3 None None True]\<rparr>) =
        [example_pending 1 None None False] @
        [example_pending 2 None None True, example_pending 3 None None True]"
    by simp
  have st: "\<forall>m\<in>set [example_pending 2 None None True, example_pending 3 None None True].
              staged (batchInfo m)"
    by (simp add: example_pending_def newPendingMessage_def)
  have pre: "[example_pending 1 None None False] = [] \<or>
             \<not> staged (batchInfo (last [example_pending 1 None None False]))"
    by (simp add: example_pending_def newPendingMessage_def)
  show ?thesis
    unfolding staged_pop[OF q st pre]
    by (simp add: example_pending_def newPendingMessage_def hasTypicalRuntimeOp_def
          example_local_def example_op_def)
qed

lemma applyStashedOpsAt_drained:
  "applyStashedOpsAt ext h (Some target) k s w = (res, s', w') \<Longrightarrow>
   \<exists>drained. initialMessages s = drained @ initialMessages s' \<and>
     (\<forall>m\<in>set drained. referenceSequenceNumber m = target) \<and>
     (res = Inr () \<longrightarrow>
        initialMessages s' = [] \<or> target < referenceSequenceNumber (hd (initialMessages s')))"
proof (induction ext h "Some target" k s w rule: applyStashedOpsAt.induct)
  case (1 ext h k s w)
  show ?case
  proof (cases "initialMessages s")
    case Nil
    then show ?thesis
      using "1.prems" by (subst (asm) applyStashedOpsAt.simps) auto
  next
    case (Cons peek rest)
    consider (gt) "target < referenceSequenceNumber peek"
      | (lt) "referenceSequenceNumber peek < target"
      | (eq) "referenceSequenceNumber peek = target" by linarith
    then show ?thesis
    proof cases
      case gt
      then show ?thesis
        using "1.prems" Cons by (subst (asm) applyStashedOpsAt.simps) auto
    next
      case lt
      then show ?thesis
        using "1.prems" Cons by (subst (asm) applyStashedOpsAt.simps) auto
    next
      case eq
      have step: "\<exists>drained. rest = drained @ initialMessages s' \<and>
                    (\<forall>m\<in>set drained. referenceSequenceNumber m = target) \<and>
                    (res = Inr () \<longrightarrow> initialMessages s' = [] \<or>
                       target < referenceSequenceNumber (hd (initialMessages s')))"
        using "1.prems" Cons eq "1.hyps"
        apply (subst (asm) applyStashedOpsAt.simps)
        apply (simp add: Let_def split: sum.splits bool.splits prod.splits option.splits if_splits)
        apply (fastforce+)?
        done
      then obtain drained where d: "rest = drained @ initialMessages s'"
        "\<forall>m\<in>set drained. referenceSequenceNumber m = target"
        "res = Inr () \<longrightarrow> initialMessages s' = [] \<or>
           target < referenceSequenceNumber (hd (initialMessages s'))" by blast
      show ?thesis
        by (rule exI[of _ "peek # drained"]) (use d Cons eq in simp)
    qed
  qed
qed

text \<open>
  C8 (stash target bound). With a target sequence number: an iteration that finds the next
  stashed entry above the target returns without error and changes nothing; one that finds
  it below the target throws before the entry is shifted or applied; and every entry a run
  has shifted was at the target, so a run that returns normally has stopped at the end of
  the stash or at the first entry above the target.
\<close>

theorem stash_target_bound:
  "(\<forall>peek rest. initialMessages s = peek # rest \<and> target < referenceSequenceNumber peek \<longrightarrow>
      applyStashedOpsAt ext h (Some target) k s w = (Inr (), s, w)) \<and>
   (\<forall>peek rest. initialMessages s = peek # rest \<and> referenceSequenceNumber peek < target \<longrightarrow>
      applyStashedOpsAt ext h (Some target) k s w =
        (Inl (PlainError ''loaded from snapshot too recent to apply stashed ops''), s, w)) \<and>
   (\<forall>res s' w'. applyStashedOpsAt ext h (Some target) k s w = (res, s', w') \<longrightarrow>
      (\<exists>drained. initialMessages s = drained @ initialMessages s' \<and>
         (\<forall>m\<in>set drained. referenceSequenceNumber m = target) \<and>
         (res = Inr () \<longrightarrow>
            initialMessages s' = [] \<or>
            target < referenceSequenceNumber (hd (initialMessages s')))))"
proof (intro conjI allI impI)
  fix peek rest
  assume "initialMessages s = peek # rest \<and> target < referenceSequenceNumber peek"
  then show "applyStashedOpsAt ext h (Some target) k s w = (Inr (), s, w)"
    by (subst applyStashedOpsAt.simps) simp
next
  fix peek rest
  assume "initialMessages s = peek # rest \<and> referenceSequenceNumber peek < target"
  then show "applyStashedOpsAt ext h (Some target) k s w =
        (Inl (PlainError ''loaded from snapshot too recent to apply stashed ops''), s, w)"
    by (subst applyStashedOpsAt.simps) simp
next
  fix res s' w'
  assume "applyStashedOpsAt ext h (Some target) k s w = (res, s', w')"
  then show "\<exists>drained. initialMessages s = drained @ initialMessages s' \<and>
         (\<forall>m\<in>set drained. referenceSequenceNumber m = target) \<and>
         (res = Inr () \<longrightarrow>
            initialMessages s' = [] \<or>
            target < referenceSequenceNumber (hd (initialMessages s')))"
    by (rule applyStashedOpsAt_drained)
qed

text \<open>Target 5: an entry at 9 is left alone, an entry at 3 is an error.\<close>

theorem stash_target_bound_witness:
  "applyStashedOpsAt example_ext example_stash_handler (Some 5) 0
     (newPendingStateManager (Some [example_stashed 9 (show_json (example_op 1))])) [] =
     (Inr (), newPendingStateManager (Some [example_stashed 9 (show_json (example_op 1))]), []) \<and>
   applyStashedOpsAt example_ext example_stash_handler (Some 5) 0
     (newPendingStateManager (Some [example_stashed 3 (show_json (example_op 1))])) [] =
     (Inl (PlainError ''loaded from snapshot too recent to apply stashed ops''),
      newPendingStateManager (Some [example_stashed 3 (show_json (example_op 1))]), [])"
proof -
  have gt: "initialMessages (newPendingStateManager (Some [example_stashed 9 (show_json (example_op 1))])) =
          example_stashed 9 (show_json (example_op 1)) # [] \<and>
        5 < referenceSequenceNumber (example_stashed 9 (show_json (example_op 1)))"
    by (simp add: newPendingStateManager_def example_stashed_def)
  have lt: "initialMessages (newPendingStateManager (Some [example_stashed 3 (show_json (example_op 1))])) =
          example_stashed 3 (show_json (example_op 1)) # [] \<and>
        referenceSequenceNumber (example_stashed 3 (show_json (example_op 1))) < 5"
    by (simp add: newPendingStateManager_def example_stashed_def)
  note a = stash_target_bound[of "newPendingStateManager (Some [example_stashed 9 (show_json (example_op 1))])"
            5 example_ext example_stash_handler 0 "[]", THEN conjunct1, rule_format, OF gt]
  note b = stash_target_bound[of "newPendingStateManager (Some [example_stashed 3 (show_json (example_op 1))])"
            5 example_ext example_stash_handler 0 "[]", THEN conjunct2, THEN conjunct1, rule_format, OF lt]
  show ?thesis
    using a b by (rule conjI)
qed

section \<open>Replay\<close>

lemma onFlushBatch_appends:
  "onFlushBatch ext (fc_handlerClientId c) (fc_uuidValue c) (fc_batch c)
     (fc_clientSequenceNumber c) (fc_staged c) (fc_ignoreBatchId c) s = (Inr (), s') \<Longrightarrow>
   s' = s\<lparr>pendingMessages := pendingMessages s @ flushedMessages ext c\<rparr>"
  by (auto simp: onFlushBatch_def flushedMessages_def newPendingStateManager_def Let_def
           split: if_splits option.splits prod.splits)

lemma runFlushCalls_appends:
  "runFlushCalls ext cs s = (Inr (), s') \<Longrightarrow>
   s' = s\<lparr>pendingMessages := pendingMessages s @ concat (map (flushedMessages ext) cs)\<rparr>"
proof (induction cs arbitrary: s)
  case Nil
  then show ?case by simp
next
  case (Cons c cs)
  obtain r1 s1 where f: "onFlushBatch ext (fc_handlerClientId c) (fc_uuidValue c) (fc_batch c)
             (fc_clientSequenceNumber c) (fc_staged c) (fc_ignoreBatchId c) s = (r1, s1)"
    by (cases "onFlushBatch ext (fc_handlerClientId c) (fc_uuidValue c) (fc_batch c)
             (fc_clientSequenceNumber c) (fc_staged c) (fc_ignoreBatchId c) s")
  show ?case
  proof (cases r1)
    case (Inl e)
    then show ?thesis using Cons.prems f by simp
  next
    case (Inr u)
    then have run: "runFlushCalls ext cs s1 = (Inr (), s')" using Cons.prems f by simp
    have "s1 = s\<lparr>pendingMessages := pendingMessages s @ flushedMessages ext c\<rparr>"
      using f Inr by (auto dest: onFlushBatch_appends)
    then show ?thesis using Cons.IH[OF run] by simp
  qed
qed

lemma callReSubmitBatch_appends:
  "callReSubmitBatch ext h b m s w = (Inr (), s', w') \<Longrightarrow>
   w' = snd (reSubmitBatch h b m w) \<and>
   s' = s\<lparr>pendingMessages := pendingMessages s @
            concat (map (flushedMessages ext) (fst (fst (reSubmitBatch h b m w))))\<rparr>"
  by (auto simp: callReSubmitBatch_def split: prod.splits sum.splits option.splits
           dest: runFlushCalls_appends)

lemma onFlushBatch_frame:
  "onFlushBatch ext cid u b csn stg ign s = (r, s') \<Longrightarrow> \<exists>q. s' = s\<lparr>pendingMessages := q\<rparr>"
  by (auto simp: onFlushBatch_def Let_def split: if_splits option.splits prod.splits
           intro: exI[of _ "pendingMessages s"])

lemma runFlushCalls_frame:
  "runFlushCalls ext cs s = (r, s') \<Longrightarrow> \<exists>q. s' = s\<lparr>pendingMessages := q\<rparr>"
proof (induction cs arbitrary: s)
  case Nil
  then show ?case by (auto intro: exI[of _ "pendingMessages s"])
next
  case (Cons c cs)
  obtain r1 s1 where f: "onFlushBatch ext (fc_handlerClientId c) (fc_uuidValue c) (fc_batch c)
             (fc_clientSequenceNumber c) (fc_staged c) (fc_ignoreBatchId c) s = (r1, s1)"
    by (cases "onFlushBatch ext (fc_handlerClientId c) (fc_uuidValue c) (fc_batch c)
             (fc_clientSequenceNumber c) (fc_staged c) (fc_ignoreBatchId c) s")
  from onFlushBatch_frame[OF f] obtain q1 where s1: "s1 = s\<lparr>pendingMessages := q1\<rparr>" by blast
  show ?case
  proof (cases r1)
    case (Inl e)
    then show ?thesis using Cons.prems f s1 by auto
  next
    case (Inr u)
    then have "runFlushCalls ext cs s1 = (r, s')" using Cons.prems f by simp
    from Cons.IH[OF this] obtain q where "s' = s1\<lparr>pendingMessages := q\<rparr>" by blast
    then show ?thesis using s1 by auto
  qed
qed

lemma callReSubmitBatch_frame:
  "callReSubmitBatch ext h b m s w = (r, s', w') \<Longrightarrow>
   (\<exists>q. s' = s\<lparr>pendingMessages := q\<rparr>) \<and> w' = snd (reSubmitBatch h b m w)"
  by (auto simp: callReSubmitBatch_def split: prod.splits sum.splits option.splits
           dest: runFlushCalls_frame)

lemma collectBatch_frame:
  "collectBatch pm r b s = (res, s') \<Longrightarrow> \<exists>q. s' = s\<lparr>pendingMessages := q\<rparr>"
proof (induction pm r b s rule: collectBatch.induct)
  case (1 pm r b s)
  note eq = "1.prems"[unfolded collectBatch.simps[of pm r b s]]
  have triv: "\<exists>q. s = s\<lparr>pendingMessages := q\<rparr>"
    by (rule exI[of _ "pendingMessages s"]) simp
  show ?case
  proof (cases r)
    case 0
    then show ?thesis using eq triv by (auto simp: Let_def split: if_splits)
  next
    case (Suc k)
    show ?thesis
    proof (cases "pendingMessages s")
      case Nil
      then show ?thesis using eq Suc triv by (auto simp: Let_def split: if_splits)
    next
      case (Cons n rest)
      show ?thesis
        using eq Suc Cons "1.IH"[OF _ refl _ Suc Cons] triv
        by (fastforce simp: Let_def split: if_splits)
    qed
  qed
qed

lemma collectBatch_takes:
  "collectBatch pm r b s = (Inr (b', r'), s') \<Longrightarrow>
   \<exists>taken rest. pendingMessages s = taken @ rest \<and>
           s' = s\<lparr>pendingMessages := rest\<rparr> \<and>
           r = length taken + r' \<and>
           b' = b @ map resubmitData (pm # taken)"
proof (induction pm r b s rule: collectBatch.induct)
  case (1 pm r b s)
  note eq = "1.prems"[unfolded collectBatch.simps[of pm r b s]]
  show ?case
  proof (cases "batchFlag pm = Some False")
    case True
    then have "s' = s" "r' = r" "b' = b @ [resubmitData pm]"
      using eq by (auto simp: Let_def split: if_splits)
    then show ?thesis by (intro exI[of _ "[]"] exI[of _ "pendingMessages s"]) simp
  next
    case False
    then obtain k n rest where r: "r = Suc k" and q: "pendingMessages s = n # rest"
      and rec: "collectBatch n k (b @ [resubmitData pm]) (s\<lparr>pendingMessages := rest\<rparr>) = (Inr (b', r'), s')"
      and ty: "hasTypicalRuntimeOp pm" and fl: "batchFlag n \<noteq> Some True"
      using eq by (auto simp: Let_def split: if_splits nat.splits list.splits)
    from ty have ty': "\<not> \<not> hasTypicalRuntimeOp pm" by simp
    from "1.IH"[OF ty' refl False r q fl rec]
    obtain taken rest2 where t: "rest = taken @ rest2"
      "s' = s\<lparr>pendingMessages := rest2\<rparr>"
      "k = length taken + r'" "b' = (b @ [resubmitData pm]) @ map resubmitData (n # taken)"
      by auto
    show ?thesis
      by (intro exI[of _ "n # taken"] exI[of _ rest2]) (use t q r in auto)
  qed
qed

lemma resubmitData_clearStagedFlag [simp]:
  "resubmitData (clearStagedFlag m) = resubmitData m"
  by (simp add: resubmitData_def clearStagedFlag_def)

lemma itemOf_batch:
  "list_all2 itemOf (map Some (map resubmitData ms)) ms"
  by (induction ms) (simp_all add: itemOf_def)

lemma replayIteration_Inr_cases:
  assumes it: "replayIteration ext h c sq r seen front s w = (Inr (r', seen'), s', w')"
  obtains
    (requeue) "c" "\<not> staged (batchInfo front)" "\<not> seen" "r' = r" "seen' = seen"
      "s' = s\<lparr>pendingMessages := pendingMessages s @ [front]\<rparr>" "w' = w"
  | (resubmit) batchData s2 taken rest2 where
      "\<not> (c \<and> \<not> staged (batchInfo front))" "seen' = (c \<or> seen)"
      "callReSubmitBatch ext h batchData
         (resubmitMetadata ext sq (if c then clearStagedFlag front else front)) s2 w =
         (Inr (), s', w')"
      "pendingMessages s = taken @ rest2"
      "s2 = s\<lparr>pendingMessages := rest2\<rparr>"
      "r = length taken + r'"
      "list_all2 itemOf (if batchData = [] then [None] else map Some batchData) (front # taken)"
proof (cases "c \<and> \<not> staged (batchInfo front)")
  case True
  then show ?thesis
    using it requeue by (auto simp: replayIteration_def split: if_splits)
next
  case False
  define pm where "pm = (if c then clearStagedFlag front else front)"
  have md: "localOpMetadata pm = localOpMetadata front"
    by (simp add: pm_def clearStagedFlag_def)
  have rd: "resubmitData pm = resubmitData front"
    by (simp add: pm_def)
  have triv: "s = s\<lparr>pendingMessages := pendingMessages s\<rparr>" by simp
  have seen': "(if c then True else seen) = (c \<or> seen)" by simp
  note it' = it[unfolded replayIteration_def Let_def, folded pm_def, unfolded seen']
  show ?thesis
  proof (cases "isEmptyBatchLocalOpMetadata (localOpMetadata pm)")
    case True
    then have call: "callReSubmitBatch ext h [] (resubmitMetadata ext sq pm) s w = (Inr (), s', w')"
      and rs: "r' = r" "seen' = (c \<or> seen)"
      using it' False by (auto split: if_splits prod.splits sum.splits)
    show ?thesis
      by (rule resubmit[of "[]" s "[]" "pendingMessages s"])
         (use False call rs triv True md in \<open>simp_all add: pm_def[symmetric] itemOf_def\<close>)
  next
    case notEmpty: False
    show ?thesis
    proof (cases "batchFlag pm = None")
      case True
      then have call: "callReSubmitBatch ext h [resubmitData pm] (resubmitMetadata ext sq pm) s w =
                         (Inr (), s', w')"
        and rs: "r' = r" "seen' = (c \<or> seen)"
        using it' False notEmpty by (auto split: if_splits prod.splits sum.splits)
      show ?thesis
        by (rule resubmit[of "[resubmitData pm]" s "[]" "pendingMessages s"])
           (use False call rs triv rd in \<open>simp_all add: pm_def[symmetric] itemOf_def\<close>)
    next
      case multi: False
      then obtain batchData s2 where
        coll: "collectBatch pm r [] s = (Inr (batchData, r'), s2)"
        and call: "callReSubmitBatch ext h batchData (resubmitMetadata ext sq pm) s2 w =
                         (Inr (), s', w')"
        and rs: "seen' = (c \<or> seen)"
        using it' False notEmpty by (auto split: if_splits prod.splits sum.splits)
      from collectBatch_takes[OF coll] obtain taken rest2 where
        t: "pendingMessages s = taken @ rest2"
        "s2 = s\<lparr>pendingMessages := rest2\<rparr>"
        "r = length taken + r'" "batchData = map resubmitData (pm # taken)"
        by auto
      have items: "list_all2 itemOf (if batchData = [] then [None] else map Some batchData)
                     (front # taken)"
        using itemOf_batch[of "front # taken"] by (simp add: t(4) rd)
      show ?thesis
        by (rule resubmit[of batchData s2 taken rest2])
           (use False call rs t(1,2,3) items in \<open>simp_all add: pm_def[symmetric]\<close>)
    qed
  qed
qed

lemma replayIteration_Inl_cases:
  assumes it: "replayIteration ext h c sq r seen front s w = (Inl e, s', w')"
  obtains
    (noCall) "w' = w"
  | (sinkCall) batchData taken rest2 where
      "\<not> (c \<and> \<not> staged (batchInfo front))"
      "w' = snd (reSubmitBatch h batchData
                   (resubmitMetadata ext sq (if c then clearStagedFlag front else front)) w)"
      "pendingMessages s = taken @ rest2"
      "length taken \<le> r"
      "list_all2 itemOf (if batchData = [] then [None] else map Some batchData) (front # taken)"
proof (cases "c \<and> \<not> staged (batchInfo front)")
  case True
  then show ?thesis
    using it noCall by (auto simp: replayIteration_def split: if_splits)
next
  case False
  define pm where "pm = (if c then clearStagedFlag front else front)"
  have md: "localOpMetadata pm = localOpMetadata front"
    by (simp add: pm_def clearStagedFlag_def)
  have rd: "resubmitData pm = resubmitData front"
    by (simp add: pm_def)
  note it' = it[unfolded replayIteration_def Let_def, folded pm_def]
  show ?thesis
  proof (cases "batchFlag pm = Some False")
    case True
    then show ?thesis using it' False noCall by (auto split: if_splits)
  next
    case notEnd: False
    show ?thesis
    proof (cases "isEmptyBatchLocalOpMetadata (localOpMetadata pm)")
      case True
      then obtain s2 where call:
        "callReSubmitBatch ext h [] (resubmitMetadata ext sq pm) s w = (Inl e, s2, w')"
        using it' False notEnd by (auto split: if_splits prod.splits sum.splits)
      show ?thesis
        by (rule sinkCall[of "[]" "[]" "pendingMessages s"])
           (use False callReSubmitBatch_frame[OF call] True md in
             \<open>simp_all add: pm_def[symmetric] itemOf_def\<close>)
    next
      case notEmpty: False
      show ?thesis
      proof (cases "hasTypicalRuntimeOp pm")
        case False
        then show ?thesis using it' \<open>\<not> (c \<and> \<not> staged (batchInfo front))\<close> notEnd notEmpty noCall
          by (auto split: if_splits)
      next
        case typical: True
        show ?thesis
        proof (cases "batchFlag pm = None")
          case True
          then obtain s2 where call:
            "callReSubmitBatch ext h [resubmitData pm] (resubmitMetadata ext sq pm) s w =
               (Inl e, s2, w')"
            using it' False notEnd notEmpty typical
            by (auto split: if_splits prod.splits sum.splits)
          show ?thesis
            by (rule sinkCall[of "[resubmitData pm]" "[]" "pendingMessages s"])
               (use False callReSubmitBatch_frame[OF call] rd in
                 \<open>simp_all add: pm_def[symmetric] itemOf_def\<close>)
        next
          case multi: False
          show ?thesis
          proof (cases "r = 0")
            case True
            then show ?thesis using it' False notEnd notEmpty typical multi noCall
              by (auto split: if_splits)
          next
            case pos: False
            obtain res2 s2 where coll: "collectBatch pm r [] s = (res2, s2)"
              by (cases "collectBatch pm r [] s") auto
            show ?thesis
            proof (cases res2)
              case (Inl e2)
              then show ?thesis
                using it' False notEnd notEmpty typical multi pos coll noCall
                by (auto split: if_splits)
            next
              case (Inr p)
              obtain batchData r' where p: "p = (batchData, r')" by (cases p) auto
              from collectBatch_takes[OF coll[unfolded Inr p]] obtain taken rest2 where
                t: "pendingMessages s = taken @ rest2" "r = length taken + r'"
                   "batchData = map resubmitData (pm # taken)"
                by auto
              obtain s3 where call:
                "callReSubmitBatch ext h batchData (resubmitMetadata ext sq pm) s2 w =
                   (Inl e, s3, w')"
                using it' False notEnd notEmpty typical multi pos coll Inr p
                by (auto split: if_splits prod.splits sum.splits)
              have items: "list_all2 itemOf (if batchData = [] then [None] else map Some batchData)
                             (front # taken)"
                using itemOf_batch[of "front # taken"] by (simp add: t(3) rd)
              show ?thesis
                by (rule sinkCall[of batchData taken rest2])
                   (use False callReSubmitBatch_frame[OF call] t(1,2) items in
                     \<open>simp_all add: pm_def[symmetric]\<close>)
            qed
          qed
        qed
      qed
    qed
  qed
qed

lemma replayedItems_Cons:
  "replayedItems ((b, x) # calls) = (if b = [] then [None] else map Some b) @ replayedItems calls"
  by (simp add: replayedItems_def)

lemma prefix_of_append:
  assumes "todo @ extra = taken @ rest2" and "length taken \<le> length todo"
  shows "todo = taken @ drop (length taken) todo \<and> rest2 = drop (length taken) todo @ extra"
proof -
  have "take (length taken) (todo @ extra) = taken" using assms(1) by simp
  then have tk: "take (length taken) todo = taken" using assms(2) by simp
  have t2: "todo = taken @ drop (length taken) todo"
    using tk by (metis append_take_drop_id)
  have "drop (length taken) (todo @ extra) = rest2" using assms(1) by simp
  then have "rest2 = drop (length taken) todo @ extra" using assms(2) by simp
  then show ?thesis using t2 by simp
qed

lemma replayLoop_accounting:
  assumes log: "\<And>b m w. sinkLog (snd (reSubmitBatch h b m w)) =
                         sinkLog w @ [(b, fst (fst (reSubmitBatch h b m w)))]"
  shows "replayLoop ext h c sq n seen s w = (res, s', w') \<Longrightarrow>
         pendingMessages s = todo @ extra \<Longrightarrow> length todo = n \<Longrightarrow>
         \<exists>requeued replayed rest new.
            todo = requeued @ replayed @ rest \<and>
            sinkLog w' = sinkLog w @ new \<and>
            (\<forall>m\<in>set requeued. c \<and> \<not> staged (batchInfo m)) \<and>
            (seen \<longrightarrow> requeued = []) \<and>
            list_all2 itemOf (replayedItems new) replayed \<and>
            (res = Inr () \<longrightarrow>
               rest = [] \<and>
               s' = s\<lparr>pendingMessages :=
                        extra @ requeued @
                        concat (map (flushedMessages ext) (concat (map snd new)))\<rparr>)"
  using log
proof (induction ext h c sq n seen s w arbitrary: todo extra rule: replayLoop.induct)
  case (1 ext h c sq n seen s w)
  note run = "1.prems"(1)[unfolded replayLoop.simps[of ext h c sq n seen s w]]
  show ?case
  proof (cases n)
    case 0
    then have "s' = s" "w' = w" "todo = []" "res = Inr ()" using run "1.prems"(3) by auto
    then show ?thesis
      using "1.prems"(2)
      by (intro exI[of _ "[]"]) (simp add: replayedItems_def)
  next
    case (Suc r)
    then obtain front todo' where todo: "todo = front # todo'" and len: "length todo' = r"
      using "1.prems"(3) by (cases todo) auto
    have q: "pendingMessages s = front # (todo' @ extra)"
      using "1.prems"(2) todo by simp
    let ?s1 = "s\<lparr>pendingMessages := todo' @ extra\<rparr>"
    let ?pm = "if c then clearStagedFlag front else front"
    obtain res1 s1' w1 where it: "replayIteration ext h c sq r seen front ?s1 w = (res1, s1', w1)"
      by (cases "replayIteration ext h c sq r seen front ?s1 w") auto
    show ?thesis
    proof (cases res1)
      case (Inl e)
      then have fin: "res = Inl e" "w' = w1"
        using run Suc q it by auto
      from it[unfolded Inl] show ?thesis
      proof (cases rule: replayIteration_Inl_cases)
        case noCall
        show ?thesis
          apply (rule exI[of _ "[]"])
          apply (rule exI[of _ "[]"])
          apply (rule exI[of _ todo])
          apply (rule exI[of _ "[]"])
          using fin noCall by (simp add: replayedItems_def)
      next
        case (sinkCall batchData taken rest2)
        let ?calls = "fst (fst (reSubmitBatch h batchData (resubmitMetadata ext sq ?pm) w))"
        have logw1: "sinkLog w1 = sinkLog w @ [(batchData, ?calls)]"
          unfolding sinkCall(2) by (rule "1.prems"(4))
        have eq: "todo' @ extra = taken @ rest2" using sinkCall(3) by simp
        have le: "length taken \<le> length todo'" using sinkCall(4) len by simp
        note pre = prefix_of_append[OF eq le]
        have items: "list_all2 itemOf (replayedItems [(batchData, ?calls)]) (front # taken)"
          using sinkCall(5) by (simp add: replayedItems_def)
        show ?thesis
          apply (rule exI[of _ "[]"])
          apply (rule exI[of _ "front # taken"])
          apply (rule exI[of _ "drop (length taken) todo'"])
          apply (rule exI[of _ "[(batchData, ?calls)]"])
          apply (intro conjI)
          subgoal using todo pre by simp
          subgoal using logw1 fin by simp
          subgoal by simp
          subgoal by simp
          subgoal by (rule items)
          subgoal using fin by simp
          done
      qed
    next
      case (Inr p)
      obtain r' seen' where res1: "res1 = Inr (r', seen')"
        using Inr by (cases p) auto
      have rest: "replayLoop ext h c sq r' seen' s1' w1 = (res, s', w')"
        using run Suc q it res1 by simp
      note it' = it[unfolded res1]
      note ih = "1.IH"[OF Suc q it'[symmetric] refl refl refl rest _ _ "1.prems"(4)]
      from it' show ?thesis
      proof (cases rule: replayIteration_Inr_cases)
        case requeue
        have q1: "pendingMessages s1' = todo' @ (extra @ [front])"
          using requeue by simp
        from ih[OF q1] len requeue obtain requeued replayed rest new where
          r: "todo' = requeued @ replayed @ rest" "sinkLog w' = sinkLog w1 @ new"
             "\<forall>m\<in>set requeued. c \<and> \<not> staged (batchInfo m)"
             "list_all2 itemOf (replayedItems new) replayed"
             "res = Inr () \<longrightarrow> rest = [] \<and>
                s' = s1'\<lparr>pendingMessages :=
                       (extra @ [front]) @ requeued @
                       concat (map (flushedMessages ext) (concat (map snd new)))\<rparr>"
          by blast
        show ?thesis
          apply (rule exI[of _ "front # requeued"])
          apply (rule exI[of _ replayed])
          apply (rule exI[of _ rest])
          apply (rule exI[of _ new])
          using r requeue todo by simp
      next
        case (resubmit batchData s2 taken rest2)
        let ?calls = "fst (fst (reSubmitBatch h batchData (resubmitMetadata ext sq ?pm) w))"
        let ?A = "concat (map (flushedMessages ext) ?calls)"
        from callReSubmitBatch_appends[OF resubmit(3)]
        have w1: "w1 = snd (reSubmitBatch h batchData (resubmitMetadata ext sq ?pm) w)"
          and s1': "s1' = s2\<lparr>pendingMessages := pendingMessages s2 @ ?A\<rparr>"
          by auto
        have logw1: "sinkLog w1 = sinkLog w @ [(batchData, ?calls)]"
          unfolding w1 by (rule "1.prems"(4))
        have eq: "todo' @ extra = taken @ rest2" using resubmit(4) by simp
        have le: "length taken \<le> length todo'" using resubmit(6) len by simp
        define todo'' where "todo'' = drop (length taken) todo'"
        from prefix_of_append[OF eq le]
        have t2: "todo' = taken @ todo''" and r2: "rest2 = todo'' @ extra"
          by (simp_all add: todo''_def)
        have s2: "s2 = s\<lparr>pendingMessages := todo'' @ extra\<rparr>"
          using resubmit(5) r2 by simp
        have q2: "pendingMessages s2 = todo'' @ extra"
          using s2 by simp
        have len2: "length todo'' = r'" using t2 len resubmit(6) by simp
        have q1: "pendingMessages s1' = todo'' @ (extra @ ?A)"
          using s1' q2 by simp
        from ih[OF q1 len2] obtain requeued replayed rest new where
          r: "todo'' = requeued @ replayed @ rest" "sinkLog w' = sinkLog w1 @ new"
             "\<forall>m\<in>set requeued. c \<and> \<not> staged (batchInfo m)"
             "seen' \<longrightarrow> requeued = []"
             "list_all2 itemOf (replayedItems new) replayed"
             "res = Inr () \<longrightarrow> rest = [] \<and>
                s' = s1'\<lparr>pendingMessages :=
                       (extra @ ?A) @ requeued @
                       concat (map (flushedMessages ext) (concat (map snd new)))\<rparr>"
          by blast
        have nil: "requeued = []"
          using r(3,4) resubmit(2) by (cases requeued) auto
        have items: "list_all2 itemOf (replayedItems ((batchData, ?calls) # new))
                       ((front # taken) @ replayed)"
          unfolding replayedItems_Cons
          using resubmit(7) r(5) by (rule list_all2_appendI)
        show ?thesis
          apply (rule exI[of _ "[]"])
          apply (rule exI[of _ "(front # taken) @ replayed"])
          apply (rule exI[of _ rest])
          apply (rule exI[of _ "(batchData, ?calls) # new"])
          apply (intro conjI)
          subgoal using todo t2 r(1) nil by simp
          subgoal using r(2) logw1 by simp
          subgoal by simp
          subgoal by simp
          subgoal by (rule items)
          subgoal using r(6) by (simp add: s1' s2 nil)
          done
      qed
    qed
  qed
qed

text \<open>
  C4 (fixed-count replay). Let the handler keep a log of its \<open>reSubmitBatch\<close> calls, each
  with the flush calls it made. In every call of \<open>replayPendingStates\<close> the queue at call
  time splits into messages that were requeued (only when committing staged batches, and
  none of them staged), messages that were replayed, and a rest; the items handed to
  \<open>reSubmitBatch\<close> during the call are the replayed messages, one for one and in order. When
  the call returns normally the rest is empty, and the queue afterwards is the requeued
  messages followed by every message that the re-entrant flush calls appended. So the
  messages processed are exactly those present at call time, and never an appended one.
\<close>

theorem fixed_count_replay:
  assumes log: "\<And>b m w. sinkLog (snd (reSubmitBatch h b m w)) =
                         sinkLog w @ [(b, fst (fst (reSubmitBatch h b m w)))]"
    and run: "replayPendingStates ext h options s w = (res, s', w')"
  shows "\<exists>requeued replayed rest new.
           pendingMessages s = requeued @ replayed @ rest \<and>
           sinkLog w' = sinkLog w @ new \<and>
           (\<forall>m\<in>set requeued.
              committingStagedBatches (effectiveOptions options) \<and> \<not> staged (batchInfo m)) \<and>
           list_all2 itemOf (replayedItems new) replayed \<and>
           (res = Inr () \<longrightarrow>
              rest = [] \<and>
              pendingMessages s' =
                requeued @ concat (map (flushedMessages ext) (concat (map snd new))))"
proof -
  define c where "c = committingStagedBatches (effectiveOptions options)"
  define sq where "sq = squash (effectiveOptions options)"
  let ?s0 = "s\<lparr>clientIdFromLastReplay := clientId h w\<rparr>"
  note run' = run[unfolded replayPendingStates_def Let_def, folded c_def sq_def]
  have early: ?thesis if "res \<noteq> Inr ()" "w' = w"
    apply (rule exI[of _ "[]"])
    apply (rule exI[of _ "[]"])
    apply (rule exI[of _ "pendingMessages s"])
    apply (rule exI[of _ "[]"])
    using that by (simp add: replayedItems_def)
  show ?thesis
  proof (cases "(connected h w \<or> c) \<and> (c \<or> clientIdFromLastReplay s \<noteq> clientId h w) \<and>
                initialMessages s = []")
    case False
    then have "res \<noteq> Inr ()" "w' = w"
      using run' by (auto split: if_splits)
    then show ?thesis by (rule early)
  next
    case True
    obtain r2 s2 w2 where loop:
      "replayLoop ext h c sq (length (pendingMessages ?s0)) False ?s0 w = (r2, s2, w2)"
      by (cases "replayLoop ext h c sq (length (pendingMessages ?s0)) False ?s0 w") auto
    have r2: "r2 = res" and w2: "w2 = w'"
      and q': "res = Inr () \<longrightarrow> pendingMessages s' = pendingMessages s2"
      using run' loop True by (cases r2; auto split: if_splits)+
    have q0: "pendingMessages ?s0 = pendingMessages s @ []" by simp
    have len: "length (pendingMessages s) = length (pendingMessages ?s0)" by simp
    from replayLoop_accounting[of sinkLog h ext c sq "length (pendingMessages ?s0)" False ?s0 w
            r2 s2 w2 "pendingMessages s" "[]", OF log loop q0 len]
    obtain requeued replayed rest new where
      r: "pendingMessages s = requeued @ replayed @ rest" "sinkLog w2 = sinkLog w @ new"
         "\<forall>m\<in>set requeued. c \<and> \<not> staged (batchInfo m)"
         "list_all2 itemOf (replayedItems new) replayed"
         "r2 = Inr () \<longrightarrow> rest = [] \<and>
            s2 = ?s0\<lparr>pendingMessages :=
                    [] @ requeued @ concat (map (flushedMessages ext) (concat (map snd new)))\<rparr>"
      by blast
    show ?thesis
      apply (rule exI[of _ requeued])
      apply (rule exI[of _ replayed])
      apply (rule exI[of _ rest])
      apply (rule exI[of _ new])
      using r w2 q' r2 by (auto simp: c_def)
  qed
qed

text \<open>
  The example handler flushes every batch it is given again. Two pending messages are
  replayed one by one; the two messages flushed meanwhile are in the queue afterwards.
\<close>

theorem fixed_count_replay_witness:
  "(\<forall>b m w. (\<lambda>w. w) (snd (reSubmitBatch example_replay_handler b m w)) =
             (\<lambda>w. w) w @ [(b, fst (fst (reSubmitBatch example_replay_handler b m w)))]) \<and>
   fst (replayPendingStates example_ext example_replay_handler None
          ((newPendingStateManager None)\<lparr>pendingMessages :=
             [example_pending 1 None None False, example_pending 2 None None False]\<rparr>) []) =
     Inr () \<and>
   map fst (snd (snd (replayPendingStates example_ext example_replay_handler None
          ((newPendingStateManager None)\<lparr>pendingMessages :=
             [example_pending 1 None None False, example_pending 2 None None False]\<rparr>) []))) =
     [[resubmitData (example_pending 1 None None False)],
      [resubmitData (example_pending 2 None None False)]] \<and>
   map referenceSequenceNumber
     (pendingMessages (fst (snd (replayPendingStates example_ext example_replay_handler None
          ((newPendingStateManager None)\<lparr>pendingMessages :=
             [example_pending 1 None None False, example_pending 2 None None False]\<rparr>) [])))) =
     [20, 20] \<and>
   (\<exists>requeued replayed new.
      [example_pending 1 None None False, example_pending 2 None None False] =
        requeued @ replayed @ [] \<and>
      snd (snd (replayPendingStates example_ext example_replay_handler None
          ((newPendingStateManager None)\<lparr>pendingMessages :=
             [example_pending 1 None None False, example_pending 2 None None False]\<rparr>) [])) =
        [] @ new \<and>
      (\<forall>m\<in>set requeued.
         committingStagedBatches (effectiveOptions None) \<and> \<not> staged (batchInfo m)) \<and>
      list_all2 itemOf (replayedItems new) replayed \<and>
      pendingMessages (fst (snd (replayPendingStates example_ext example_replay_handler None
          ((newPendingStateManager None)\<lparr>pendingMessages :=
             [example_pending 1 None None False, example_pending 2 None None False]\<rparr>) []))) =
        requeued @ concat (map (flushedMessages example_ext) (concat (map snd new))))"
proof -
  let ?s = "(newPendingStateManager None)\<lparr>pendingMessages :=
             [example_pending 1 None None False, example_pending 2 None None False]\<rparr>"
  let ?r = "replayPendingStates example_ext example_replay_handler None ?s []"
  have log: "\<And>b m w. (\<lambda>w. w) (snd (reSubmitBatch example_replay_handler b m w)) =
             (\<lambda>w. w) w @ [(b, fst (fst (reSubmitBatch example_replay_handler b m w)))]"
    by (simp add: example_replay_handler_def Let_def)
  have ok: "fst ?r = Inr ()" by code_simp
  have run: "?r = (Inr (), fst (snd ?r), snd (snd ?r))"
    using ok by (metis prod.collapse)
  have sunk: "map fst (snd (snd ?r)) =
     [[resubmitData (example_pending 1 None None False)],
      [resubmitData (example_pending 2 None None False)]]"
    by code_simp
  have queue: "map referenceSequenceNumber (pendingMessages (fst (snd ?r))) = [20, 20]"
    by code_simp
  have q: "pendingMessages ?s =
           [example_pending 1 None None False, example_pending 2 None None False]"
    by simp
  show ?thesis
    using fixed_count_replay[of "\<lambda>w. w" example_replay_handler example_ext None ?s "[]"
            "Inr ()" "fst (snd ?r)" "snd (snd ?r)", OF log run] log ok sunk queue
    unfolding q by auto
qed

lemma replayIteration_frame:
  assumes it: "replayIteration ext h c sq r seen front s w = (res, s', w')"
  shows "\<exists>q. s' = s\<lparr>pendingMessages := q\<rparr>"
proof -
  have triv: "\<exists>q. s = s\<lparr>pendingMessages := q\<rparr>"
    by (rule exI[of _ "pendingMessages s"]) simp
  define pm where "pm = (if c then clearStagedFlag front else front)"
  note it' = it[unfolded replayIteration_def Let_def, folded pm_def]
  show ?thesis
  proof (cases "c \<and> \<not> staged (batchInfo front)")
    case True
    then show ?thesis using it' triv by (auto split: if_splits)
  next
    case False
    show ?thesis
    proof (cases "isEmptyBatchLocalOpMetadata (localOpMetadata pm) \<or> batchFlag pm = None")
      case True
      then show ?thesis
        using it' False triv
        by (auto split: if_splits prod.splits sum.splits dest: callReSubmitBatch_frame)
    next
      case multi: False
      obtain res2 s2 where coll: "collectBatch pm r [] s = (res2, s2)"
        by (cases "collectBatch pm r [] s") auto
      from collectBatch_frame[OF coll] obtain q2 where s2: "s2 = s\<lparr>pendingMessages := q2\<rparr>"
        by blast
      show ?thesis
      proof (cases res2)
        case (Inl e)
        then show ?thesis
          using it' False multi coll s2 triv by (auto split: if_splits)
      next
        case (Inr p)
        obtain bd r2 where p: "p = (bd, r2)" by (cases p) auto
        obtain res3 s3 w3 where call:
          "callReSubmitBatch ext h bd (resubmitMetadata ext sq pm) s2 w = (res3, s3, w3)"
          by (cases "callReSubmitBatch ext h bd (resubmitMetadata ext sq pm) s2 w") auto
        from callReSubmitBatch_frame[OF call] obtain q3 where "s3 = s2\<lparr>pendingMessages := q3\<rparr>"
          by blast
        then have s3: "s3 = s\<lparr>pendingMessages := q3\<rparr>" using s2 by simp
        show ?thesis
          using it' False multi coll Inr p call s3 triv
          by (cases res3) (auto split: if_splits)
      qed
    qed
  qed
qed

lemma replayLoop_frame:
  "replayLoop ext h c sq n seen s w = (res, s', w') \<Longrightarrow> \<exists>q. s' = s\<lparr>pendingMessages := q\<rparr>"
proof (induction ext h c sq n seen s w rule: replayLoop.induct)
  case (1 ext h c sq n seen s w)
  have triv: "\<exists>q. s = s\<lparr>pendingMessages := q\<rparr>"
    by (rule exI[of _ "pendingMessages s"]) simp
  note run = "1.prems"[unfolded replayLoop.simps[of ext h c sq n seen s w]]
  show ?case
  proof (cases n)
    case 0
    then show ?thesis using run triv by simp
  next
    case (Suc r)
    show ?thesis
    proof (cases "pendingMessages s")
      case Nil
      then show ?thesis using run Suc triv by simp
    next
      case (Cons front rest)
      obtain res1 s1 w1 where it:
        "replayIteration ext h c sq r seen front (s\<lparr>pendingMessages := rest\<rparr>) w = (res1, s1, w1)"
        by (cases "replayIteration ext h c sq r seen front (s\<lparr>pendingMessages := rest\<rparr>) w") auto
      from replayIteration_frame[OF it] obtain q1 where s1: "s1 = s\<lparr>pendingMessages := q1\<rparr>"
        by auto
      show ?thesis
      proof (cases res1)
        case (Inl e)
        then show ?thesis using run Suc Cons it s1 by auto
      next
        case (Inr p)
        obtain r' seen' where p: "p = (r', seen')" by (cases p) auto
        have rest: "replayLoop ext h c sq r' seen' s1 w1 = (res, s', w')"
          using run Suc Cons it Inr p by simp
        from "1.IH"[OF Suc Cons it[unfolded Inr p, symmetric] refl refl refl rest]
        obtain q where "s' = s1\<lparr>pendingMessages := q\<rparr>" by blast
        then show ?thesis using s1 by auto
      qed
    qed
  qed
qed

text \<open>
  C6 (idempotent replay guard). After a call of \<open>replayPendingStates\<close> that got past its
  first two assertions, a second call on the resulting state, without
  \<open>committingStagedBatches\<close> and with \<open>clientId()\<close> unchanged, fails an assertion: the guard
  \<open>0x173\<close>, or \<open>0x172\<close> when the handler is no longer connected.
\<close>

theorem replay_guard:
  assumes first: "replayPendingStates ext h options1 s w = (res1, s1, w1)"
    and passed: "res1 \<noteq> Inl (AssertFailed 0x172)" "res1 \<noteq> Inl (AssertFailed 0x173)"
    and same: "clientId h w1 = clientId h w"
    and notCommitting: "\<not> committingStagedBatches (effectiveOptions options2)"
  shows "fst (replayPendingStates ext h options2 s1 w1) = Inl (AssertFailed 0x172) \<or>
         fst (replayPendingStates ext h options2 s1 w1) = Inl (AssertFailed 0x173)"
proof -
  define c where "c = committingStagedBatches (effectiveOptions options1)"
  define sq where "sq = squash (effectiveOptions options1)"
  let ?s0 = "s\<lparr>clientIdFromLastReplay := clientId h w\<rparr>"
  note first' = first[unfolded replayPendingStates_def Let_def, folded c_def sq_def]
  have a1: "connected h w \<or> c" and a2: "\<not> (\<not> c \<and> \<not> clientIdFromLastReplay s \<noteq> clientId h w)"
    using first' passed by (auto split: if_splits)
  have stamped: "clientIdFromLastReplay s1 = clientId h w"
  proof (cases "initialMessages ?s0 \<noteq> []")
    case True
    then show ?thesis using first' a1 a2 by (auto split: if_splits)
  next
    case False
    obtain r2 s2 w2 where loop:
      "replayLoop ext h c sq (length (pendingMessages ?s0)) False ?s0 w = (r2, s2, w2)"
      by (cases "replayLoop ext h c sq (length (pendingMessages ?s0)) False ?s0 w") auto
    from replayLoop_frame[OF loop] obtain q where s2: "s2 = ?s0\<lparr>pendingMessages := q\<rparr>"
      by blast
    show ?thesis
      using first' a1 a2 False loop s2
      by (cases r2) (auto split: if_splits)
  qed
  show ?thesis
    using stamped same notCommitting
    by (simp add: replayPendingStates_def Let_def)
qed

text \<open>Two replays in a row on the example handler, whose client id is always \<open>A\<close>.\<close>

theorem replay_guard_witness:
  "fst (replayPendingStates example_ext example_replay_handler None
          (newPendingStateManager None) []) = Inr () \<and>
   clientId example_replay_handler
     (snd (snd (replayPendingStates example_ext example_replay_handler None
                  (newPendingStateManager None) []))) =
   clientId example_replay_handler [] \<and>
   \<not> committingStagedBatches (effectiveOptions None) \<and>
   fst (replayPendingStates example_ext example_replay_handler None
          (fst (snd (replayPendingStates example_ext example_replay_handler None
                       (newPendingStateManager None) [])))
          (snd (snd (replayPendingStates example_ext example_replay_handler None
                       (newPendingStateManager None) [])))) = Inl (AssertFailed 0x173)"
proof -
  let ?r = "replayPendingStates example_ext example_replay_handler None
              (newPendingStateManager None) []"
  have ok: "fst ?r = Inr ()" by code_simp
  have first: "?r = (fst ?r, fst (snd ?r), snd (snd ?r))" by simp
  have p1: "fst ?r \<noteq> Inl (AssertFailed 0x172)" and p2: "fst ?r \<noteq> Inl (AssertFailed 0x173)"
    unfolding ok by simp_all
  have same: "clientId example_replay_handler (snd (snd ?r)) = clientId example_replay_handler []"
    by (simp add: example_replay_handler_def)
  have nc: "\<not> committingStagedBatches (effectiveOptions None)"
    by (simp add: effectiveOptions_def defaultReplayPendingStatesOptions_def)
  have conn: "fst (replayPendingStates example_ext example_replay_handler None
                (fst (snd ?r)) (snd (snd ?r))) \<noteq> Inl (AssertFailed 0x172)"
    by code_simp
  show ?thesis
    using replay_guard[OF first p1 p2 same nc] ok same nc conn by simp
qed

lemma collectBatch_no_end:
  "\<forall>m\<in>set (pm # todo). batchFlag m \<noteq> Some False \<Longrightarrow>
   pendingMessages s = todo @ extra \<Longrightarrow> length todo = r \<Longrightarrow>
   fst (collectBatch pm r b s) \<in>
     {Inl (AssertFailed 0xb88), Inl (AssertFailed 0x555), Inl (AssertFailed 0x556)}"
proof (induction todo arbitrary: pm r b s)
  case Nil
  then show ?case
    by (subst collectBatch.simps) (simp add: Let_def)
next
  case (Cons n todo)
  then obtain k where r: "r = Suc k" and len: "length todo = k" by (cases r) auto
  have q: "pendingMessages (s\<lparr>pendingMessages := todo @ extra\<rparr>) = todo @ extra" by simp
  have flags: "\<forall>m\<in>set (n # todo). batchFlag m \<noteq> Some False"
    using Cons.prems(1) by simp
  note ih = Cons.IH[OF flags q len, of "b @ [resubmitData pm]"]
  have pmf: "batchFlag pm \<noteq> Some False" using Cons.prems(1) by simp
  show ?case
    using ih pmf Cons.prems(2)
    by (subst collectBatch.simps) (simp add: Let_def r)
qed

lemma replayLoop_no_end:
  assumes start: "batchFlag front = Some True"
    and op: "\<not> isEmptyBatchLocalOpMetadata (localOpMetadata front)"
    and stg: "c \<longrightarrow> staged (batchInfo front)"
    and noEnd: "\<forall>m\<in>set todo. batchFlag m \<noteq> Some False"
    and q: "pendingMessages s = front # todo @ extra"
  shows "fst (replayLoop ext h c sq (Suc (length todo)) seen s w) \<in>
           {Inl (AssertFailed 0xb87), Inl (AssertFailed 0x554), Inl (AssertFailed 0xb88),
            Inl (AssertFailed 0x555), Inl (AssertFailed 0x556)}"
proof -
  define pm where "pm = (if c then clearStagedFlag front else front)"
  have pmf: "batchFlag pm = Some True"
    using start by (simp add: pm_def batchFlag_def clearStagedFlag_def)
  have pmo: "\<not> isEmptyBatchLocalOpMetadata (localOpMetadata pm)"
    using op by (simp add: pm_def clearStagedFlag_def)
  let ?s1 = "s\<lparr>pendingMessages := todo @ extra\<rparr>"
  have flags: "\<forall>m\<in>set (pm # todo). batchFlag m \<noteq> Some False"
    using noEnd pmf by simp
  have q1: "pendingMessages ?s1 = todo @ extra" by simp
  note coll = collectBatch_no_end[OF flags q1 refl, of "[]"]
  have it: "fst (replayIteration ext h c sq (length todo) seen front ?s1 w) \<in>
           {Inl (AssertFailed 0xb87), Inl (AssertFailed 0x554), Inl (AssertFailed 0xb88),
            Inl (AssertFailed 0x555), Inl (AssertFailed 0x556)}"
    unfolding replayIteration_def Let_def pm_def[symmetric]
    using stg pmf pmo coll
    by (cases "collectBatch pm (length todo) [] ?s1") auto
  show ?thesis
    using it q
    by (subst replayLoop.simps)
       (cases "replayIteration ext h c sq (length todo) seen front ?s1 w", auto)
qed

lemma replayLoop_three:
  assumes q: "pendingMessages s = [p1, p2, p3]"
    and flags: "batchFlag p1 = Some True" "batchFlag p2 = None" "batchFlag p3 = Some False"
    and typical: "hasTypicalRuntimeOp p1" "hasTypicalRuntimeOp p2" "hasTypicalRuntimeOp p3"
    and op: "\<not> isEmptyBatchLocalOpMetadata (localOpMetadata p1)"
    and stg: "c \<longrightarrow> staged (batchInfo p1)"
  shows "replayLoop ext h c sq (Suc (Suc (Suc 0))) seen s w =
           (case callReSubmitBatch ext h [resubmitData p1, resubmitData p2, resubmitData p3]
                   (resubmitMetadata ext sq (if c then clearStagedFlag p1 else p1))
                   (s\<lparr>pendingMessages := []\<rparr>) w of
              (Inl e, s', w') \<Rightarrow> (Inl e, s', w')
            | (Inr u, s', w') \<Rightarrow> (Inr (), s', w'))"
proof -
  define pm where "pm = (if c then clearStagedFlag p1 else p1)"
  have pmf: "batchFlag pm = Some True"
    using flags(1) by (simp add: pm_def batchFlag_def clearStagedFlag_def)
  have pmo: "\<not> isEmptyBatchLocalOpMetadata (localOpMetadata pm)"
    using op by (simp add: pm_def clearStagedFlag_def)
  have pmt: "hasTypicalRuntimeOp pm"
    using typical(1) by (simp add: pm_def hasTypicalRuntimeOp_def clearStagedFlag_def)
  have pmd: "resubmitData pm = resubmitData p1" by (simp add: pm_def)
  have c3: "collectBatch p3 0 b x = (Inr (b @ [resubmitData p3], 0), x)" for b x
    by (subst collectBatch.simps) (simp add: typical flags Let_def)
  have c2: "collectBatch p2 (Suc 0) b (x\<lparr>pendingMessages := [p3]\<rparr>) =
              (Inr (b @ [resubmitData p2, resubmitData p3], 0), x\<lparr>pendingMessages := []\<rparr>)" for b x
    by (subst collectBatch.simps) (simp add: typical flags c3 Let_def)
  have c1: "collectBatch pm (Suc (Suc 0)) [] (s\<lparr>pendingMessages := [p2, p3]\<rparr>) =
              (Inr ([resubmitData p1, resubmitData p2, resubmitData p3], 0),
               s\<lparr>pendingMessages := []\<rparr>)"
    using c2[of "[resubmitData p1]" s]
    by (subst collectBatch.simps) (simp add: pmt pmf pmd flags Let_def)
  have fin: "replayLoop ext h cc sq 0 x y z = (Inr (), y, z)" for cc x y z
    by (subst replayLoop.simps) simp
  have it: "replayIteration ext h c sq (Suc (Suc 0)) seen p1 (s\<lparr>pendingMessages := [p2, p3]\<rparr>) w =
          (case callReSubmitBatch ext h [resubmitData p1, resubmitData p2, resubmitData p3]
                   (resubmitMetadata ext sq pm) (s\<lparr>pendingMessages := []\<rparr>) w of
              (Inl e, s', w') \<Rightarrow> (Inl e, s', w')
            | (Inr u, s', w') \<Rightarrow> (Inr (0, if c then True else seen), s', w'))"
    unfolding replayIteration_def Let_def pm_def[symmetric]
    using stg by (simp add: pmf pmo pmt c1)
  show ?thesis
    unfolding pm_def[symmetric]
    by (subst replayLoop.simps)
       (simp add: q it fin split: prod.splits sum.splits)
qed

lemma newPendingMessage_props:
  "batchFlag (newPendingMessage ext info m) =
     (case lbm_metadata m of None \<Rightarrow> None | Some md \<Rightarrow> batch md)"
  "hasTypicalRuntimeOp (newPendingMessage ext info m) =
     (jsProp (lbm_runtimeOp m) ''type'' \<noteq> Some (JStr ''groupedBatch''))"
  "localOpMetadata (newPendingMessage ext info m) = lbm_localOpMetadata m"
  "resubmitData (newPendingMessage ext info m) = toResubmitData m"
  "batchInfo (newPendingMessage ext info m) = info"
  by (simp_all add: newPendingMessage_def batchFlag_def hasTypicalRuntimeOp_def
        resubmitData_def toResubmitData_def)

lemma replay_flushed_three:
  assumes flush: "onFlushBatch ext cid u [m1, m2, m3] csn stg ign s0 = (Inr (), s1)"
    and empty: "pendingMessages s0 = []" "initialMessages s0 = []"
    and flags: "(case lbm_metadata m1 of None \<Rightarrow> None | Some md \<Rightarrow> batch md) = Some True"
      "(case lbm_metadata m2 of None \<Rightarrow> None | Some md \<Rightarrow> batch md) = None"
      "(case lbm_metadata m3 of None \<Rightarrow> None | Some md \<Rightarrow> batch md) = Some False"
    and typical: "\<forall>m\<in>set [m1, m2, m3]. jsProp (lbm_runtimeOp m) ''type'' \<noteq> Some (JStr ''groupedBatch'')"
    and op: "\<not> isEmptyBatchLocalOpMetadata (lbm_localOpMetadata m1)"
    and conn: "connected h w \<or> committingStagedBatches (effectiveOptions options)"
    and fresh: "committingStagedBatches (effectiveOptions options) \<or>
                clientIdFromLastReplay s0 \<noteq> clientId h w"
    and stg: "committingStagedBatches (effectiveOptions options) \<longrightarrow> stg"
  shows "snd (snd (replayPendingStates ext h options s1 w)) =
           snd (reSubmitBatch h [toResubmitData m1, toResubmitData m2, toResubmitData m3]
                  (resubmitMetadata ext (squash (effectiveOptions options))
                     (if committingStagedBatches (effectiveOptions options)
                      then clearStagedFlag (hd (pendingMessages s1))
                      else hd (pendingMessages s1))) w)"
proof -
  define c where "c = committingStagedBatches (effectiveOptions options)"
  define sq where "sq = squash (effectiveOptions options)"
  obtain info where s1: "s1 = s0\<lparr>pendingMessages := pendingMessages s0 @
                                   map (newPendingMessage ext info) [m1, m2, m3]\<rparr>"
    and info: "staged info = stg"
    using onFlushBatch_ok[OF flush] by blast
  let ?p1 = "newPendingMessage ext info m1"
  let ?p2 = "newPendingMessage ext info m2"
  let ?p3 = "newPendingMessage ext info m3"
  let ?s = "s1\<lparr>clientIdFromLastReplay := clientId h w\<rparr>"
  have q: "pendingMessages ?s = [?p1, ?p2, ?p3]" by (simp add: s1 empty)
  have st: "c \<longrightarrow> staged (batchInfo ?p1)"
    using stg info by (simp add: c_def newPendingMessage_props)
  have nop: "\<not> isEmptyBatchLocalOpMetadata (localOpMetadata ?p1)"
    using op by (simp add: newPendingMessage_props)
  note three = replayLoop_three[of ?s ?p1 ?p2 ?p3 c ext h sq False w, OF q _ _ _ _ _ _ nop st,
      unfolded newPendingMessage_props, OF flags]
  have loop: "replayLoop ext h c sq (Suc (Suc (Suc 0))) False ?s w =
      (case callReSubmitBatch ext h [toResubmitData m1, toResubmitData m2, toResubmitData m3]
              (resubmitMetadata ext sq (if c then clearStagedFlag ?p1 else ?p1))
              (?s\<lparr>pendingMessages := []\<rparr>) w of
         (Inl e, s', w') \<Rightarrow> (Inl e, s', w')
       | (Inr u, s', w') \<Rightarrow> (Inr (), s', w'))"
    using three typical by simp
  obtain r3 s3 w3 where call:
    "callReSubmitBatch ext h [toResubmitData m1, toResubmitData m2, toResubmitData m3]
              (resubmitMetadata ext sq (if c then clearStagedFlag ?p1 else ?p1))
              (?s\<lparr>pendingMessages := []\<rparr>) w = (r3, s3, w3)"
    by (cases "callReSubmitBatch ext h [toResubmitData m1, toResubmitData m2, toResubmitData m3]
              (resubmitMetadata ext sq (if c then clearStagedFlag ?p1 else ?p1))
              (?s\<lparr>pendingMessages := []\<rparr>) w") auto
  have w3: "w3 = snd (reSubmitBatch h [toResubmitData m1, toResubmitData m2, toResubmitData m3]
              (resubmitMetadata ext sq (if c then clearStagedFlag ?p1 else ?p1)) w)"
    using callReSubmitBatch_frame[OF call] by simp
  have hd1: "hd (pendingMessages s1) = ?p1" by (simp add: s1 empty)
  have len: "length (pendingMessages s1) = Suc (Suc (Suc 0))" by (simp add: s1 empty)
  have init: "initialMessages ?s = []" by (simp add: s1 empty)
  have last: "clientIdFromLastReplay s1 = clientIdFromLastReplay s0" by (simp add: s1)
  have "snd (snd (replayPendingStates ext h options s1 w)) = w3"
    unfolding replayPendingStates_def Let_def c_def[symmetric] sq_def[symmetric]
    using conn fresh
    by (cases r3) (auto simp: c_def[symmetric] last len init loop call)
  then show ?thesis
    by (simp add: w3 hd1 c_def sq_def)
qed

lemma replay_no_end:
  assumes start: "batchFlag front = Some True"
    and op: "\<not> isEmptyBatchLocalOpMetadata (localOpMetadata front)"
    and stg: "committingStagedBatches (effectiveOptions options) \<longrightarrow> staged (batchInfo front)"
    and noEnd: "\<forall>m\<in>set todo. batchFlag m \<noteq> Some False"
    and q: "pendingMessages s = front # todo"
  shows "\<exists>code. fst (replayPendingStates ext h options s w) = Inl (AssertFailed code)"
proof -
  define c where "c = committingStagedBatches (effectiveOptions options)"
  define sq where "sq = squash (effectiveOptions options)"
  let ?s = "s\<lparr>clientIdFromLastReplay := clientId h w\<rparr>"
  have q': "pendingMessages ?s = front # todo @ []" using q by simp
  have len: "length (pendingMessages s) = Suc (length todo)" using q by simp
  from replayLoop_no_end[OF start op stg[folded c_def] noEnd q', of ext h sq False w]
  obtain code where loop: "fst (replayLoop ext h c sq (Suc (length todo)) False ?s w) =
                             Inl (AssertFailed code)"
    by auto
  show ?thesis
    unfolding replayPendingStates_def Let_def c_def[symmetric] sq_def[symmetric]
    using loop
    by (cases "replayLoop ext h c sq (Suc (length todo)) False ?s w") (auto simp: len)
qed

text \<open>
  C5 as stated fails on batches that \<open>onFlushBatch\<close> accepts. When staged batches are being
  committed, a flushed batch that is not staged is requeued: the call returns normally and
  \<open>reSubmitBatch\<close> is not called, with or without a batch end. When the first op carries the
  empty-batch marker as its local op metadata, it is resubmitted as an empty batch, the
  second op as a batch of its own, and the third fails assertion \<open>0x41b\<close>; without a batch
  end the call returns normally.
\<close>

theorem batch_grouping_excluded_inputs:
  "fst (replayPendingStates example_ext example_replay_handler example_committing
          (snd (onFlushBatch example_ext (Some ''A'') ''u''
                  [example_local 1 (Some \<lparr>batch = Some True, batchId = None\<rparr>),
                   example_local 2 None,
                   example_local 3 (Some \<lparr>batch = Some False, batchId = None\<rparr>)]
                  (Some 5) False None (newPendingStateManager None))) []) = Inr () \<and>
   snd (snd (replayPendingStates example_ext example_replay_handler example_committing
          (snd (onFlushBatch example_ext (Some ''A'') ''u''
                  [example_local 1 (Some \<lparr>batch = Some True, batchId = None\<rparr>),
                   example_local 2 None,
                   example_local 3 (Some \<lparr>batch = Some False, batchId = None\<rparr>)]
                  (Some 5) False None (newPendingStateManager None))) [])) = [] \<and>
   fst (replayPendingStates example_ext example_replay_handler None
          (snd (onFlushBatch example_ext (Some ''A'') ''u''
                  [example_marked (example_local 1 (Some \<lparr>batch = Some True, batchId = None\<rparr>)),
                   example_local 2 None,
                   example_local 3 (Some \<lparr>batch = Some False, batchId = None\<rparr>)]
                  (Some 5) False None (newPendingStateManager None))) []) =
     Inl (AssertFailed 0x41b) \<and>
   map fst (snd (snd (replayPendingStates example_ext example_replay_handler None
          (snd (onFlushBatch example_ext (Some ''A'') ''u''
                  [example_marked (example_local 1 (Some \<lparr>batch = Some True, batchId = None\<rparr>)),
                   example_local 2 None,
                   example_local 3 (Some \<lparr>batch = Some False, batchId = None\<rparr>)]
                  (Some 5) False None (newPendingStateManager None))) []))) =
     [[], [toResubmitData (example_local 2 None)]] \<and>
   fst (replayPendingStates example_ext example_replay_handler None
          (snd (onFlushBatch example_ext (Some ''A'') ''u''
                  [example_marked (example_local 1 (Some \<lparr>batch = Some True, batchId = None\<rparr>)),
                   example_local 2 None]
                  (Some 5) False None (newPendingStateManager None))) []) = Inr () \<and>
   fst (replayPendingStates example_ext example_replay_handler example_committing
          (snd (onFlushBatch example_ext (Some ''A'') ''u''
                  [example_local 1 (Some \<lparr>batch = Some True, batchId = None\<rparr>),
                   example_local 2 None]
                  (Some 5) False None (newPendingStateManager None))) []) = Inr ()"
  by (intro conjI; code_simp)

text \<open>
  C5, amended (batch grouping round trip). First part: a batch of three typical ops (none of
  type \<open>groupedBatch\<close>), whose first op does not carry the empty-batch marker as its local op
  metadata and whose \<open>batch\<close> flag is \<open>true\<close>, unset and \<open>false\<close>, is flushed onto an empty
  queue; then a call of \<open>replayPendingStates\<close> that passes its opening assertions, and that
  commits staged batches only if the batch is staged, leaves the runtime in the state that
  a single call of \<open>reSubmitBatch\<close> with the three ops in their order leaves it in. Second
  and third part: a batch start without the marker, staged if staged batches are being
  committed, that is followed within the captured count by no message whose flag is
  \<open>false\<close> makes the loop, and so \<open>replayPendingStates\<close>, fail an assertion, whatever lies in
  the queue beyond the count.
\<close>

theorem batch_grouping:
  "(onFlushBatch ext cid u [m1, m2, m3] csn stg ign s0 = (Inr (), s1) \<and>
    pendingMessages s0 = [] \<and> initialMessages s0 = [] \<and>
    (case lbm_metadata m1 of None \<Rightarrow> None | Some md \<Rightarrow> batch md) = Some True \<and>
    (case lbm_metadata m2 of None \<Rightarrow> None | Some md \<Rightarrow> batch md) = None \<and>
    (case lbm_metadata m3 of None \<Rightarrow> None | Some md \<Rightarrow> batch md) = Some False \<and>
    (\<forall>m\<in>set [m1, m2, m3]. jsProp (lbm_runtimeOp m) ''type'' \<noteq> Some (JStr ''groupedBatch'')) \<and>
    \<not> isEmptyBatchLocalOpMetadata (lbm_localOpMetadata m1) \<and>
    (connected h w \<or> committingStagedBatches (effectiveOptions options)) \<and>
    (committingStagedBatches (effectiveOptions options) \<or>
     clientIdFromLastReplay s0 \<noteq> clientId h w) \<and>
    (committingStagedBatches (effectiveOptions options) \<longrightarrow> stg)
    \<longrightarrow>
    snd (snd (replayPendingStates ext h options s1 w)) =
      snd (reSubmitBatch h [toResubmitData m1, toResubmitData m2, toResubmitData m3]
             (resubmitMetadata ext (squash (effectiveOptions options))
                (if committingStagedBatches (effectiveOptions options)
                 then clearStagedFlag (hd (pendingMessages s1))
                 else hd (pendingMessages s1))) w)) \<and>
   (batchFlag front = Some True \<and>
    \<not> isEmptyBatchLocalOpMetadata (localOpMetadata front) \<and>
    (c \<longrightarrow> staged (batchInfo front)) \<and>
    (\<forall>m\<in>set todo. batchFlag m \<noteq> Some False) \<and>
    pendingMessages s = front # todo @ extra
    \<longrightarrow>
    fst (replayLoop ext h c sq (Suc (length todo)) seen s w) \<in>
      {Inl (AssertFailed 0xb87), Inl (AssertFailed 0x554), Inl (AssertFailed 0xb88),
       Inl (AssertFailed 0x555), Inl (AssertFailed 0x556)}) \<and>
   (batchFlag front = Some True \<and>
    \<not> isEmptyBatchLocalOpMetadata (localOpMetadata front) \<and>
    (committingStagedBatches (effectiveOptions options) \<longrightarrow> staged (batchInfo front)) \<and>
    (\<forall>m\<in>set todo. batchFlag m \<noteq> Some False) \<and>
    pendingMessages s = front # todo
    \<longrightarrow>
    (\<exists>code. fst (replayPendingStates ext h options s w) = Inl (AssertFailed code)))"
proof (intro conjI impI)
  assume a: "onFlushBatch ext cid u [m1, m2, m3] csn stg ign s0 = (Inr (), s1) \<and>
    pendingMessages s0 = [] \<and> initialMessages s0 = [] \<and>
    (case lbm_metadata m1 of None \<Rightarrow> None | Some md \<Rightarrow> batch md) = Some True \<and>
    (case lbm_metadata m2 of None \<Rightarrow> None | Some md \<Rightarrow> batch md) = None \<and>
    (case lbm_metadata m3 of None \<Rightarrow> None | Some md \<Rightarrow> batch md) = Some False \<and>
    (\<forall>m\<in>set [m1, m2, m3]. jsProp (lbm_runtimeOp m) ''type'' \<noteq> Some (JStr ''groupedBatch'')) \<and>
    \<not> isEmptyBatchLocalOpMetadata (lbm_localOpMetadata m1) \<and>
    (connected h w \<or> committingStagedBatches (effectiveOptions options)) \<and>
    (committingStagedBatches (effectiveOptions options) \<or>
     clientIdFromLastReplay s0 \<noteq> clientId h w) \<and>
    (committingStagedBatches (effectiveOptions options) \<longrightarrow> stg)"
  show "snd (snd (replayPendingStates ext h options s1 w)) =
      snd (reSubmitBatch h [toResubmitData m1, toResubmitData m2, toResubmitData m3]
             (resubmitMetadata ext (squash (effectiveOptions options))
                (if committingStagedBatches (effectiveOptions options)
                 then clearStagedFlag (hd (pendingMessages s1))
                 else hd (pendingMessages s1))) w)"
    by (rule replay_flushed_three[of ext cid u m1 m2 m3 csn stg ign s0 s1 h w options])
       (use a in blast)+
next
  assume b: "batchFlag front = Some True \<and>
    \<not> isEmptyBatchLocalOpMetadata (localOpMetadata front) \<and>
    (c \<longrightarrow> staged (batchInfo front)) \<and>
    (\<forall>m\<in>set todo. batchFlag m \<noteq> Some False) \<and>
    pendingMessages s = front # todo @ extra"
  show "fst (replayLoop ext h c sq (Suc (length todo)) seen s w) \<in>
      {Inl (AssertFailed 0xb87), Inl (AssertFailed 0x554), Inl (AssertFailed 0xb88),
       Inl (AssertFailed 0x555), Inl (AssertFailed 0x556)}"
    by (rule replayLoop_no_end) (use b in blast)+
next
  assume d: "batchFlag front = Some True \<and>
    \<not> isEmptyBatchLocalOpMetadata (localOpMetadata front) \<and>
    (committingStagedBatches (effectiveOptions options) \<longrightarrow> staged (batchInfo front)) \<and>
    (\<forall>m\<in>set todo. batchFlag m \<noteq> Some False) \<and>
    pendingMessages s = front # todo"
  show "\<exists>code. fst (replayPendingStates ext h options s w) = Inl (AssertFailed code)"
    by (rule replay_no_end[of front options todo s]) (use d in blast)+
qed

text \<open>
  The three-op batch of the examples is resubmitted in one call; a batch start followed by
  an unflagged message alone fails assertion \<open>0x555\<close>.
\<close>

theorem batch_grouping_witness:
  "onFlushBatch example_ext (Some ''A'') ''u''
     [example_local 1 (Some \<lparr>batch = Some True, batchId = None\<rparr>),
      example_local 2 None,
      example_local 3 (Some \<lparr>batch = Some False, batchId = None\<rparr>)]
     (Some 5) False None (newPendingStateManager None) =
     (Inr (), snd (onFlushBatch example_ext (Some ''A'') ''u'' example_batch3 (Some 5) False None
                     (newPendingStateManager None))) \<and>
   map fst (snd (snd (replayPendingStates example_ext example_replay_handler None
      (snd (onFlushBatch example_ext (Some ''A'') ''u'' example_batch3 (Some 5) False None
              (newPendingStateManager None))) []))) =
     [[toResubmitData (example_local 1 (Some \<lparr>batch = Some True, batchId = None\<rparr>)),
       toResubmitData (example_local 2 None),
       toResubmitData (example_local 3 (Some \<lparr>batch = Some False, batchId = None\<rparr>))]] \<and>
   fst (replayPendingStates example_ext example_replay_handler None
      ((newPendingStateManager None)\<lparr>pendingMessages :=
         [example_pending 1 (Some \<lparr>batch = Some True, batchId = None\<rparr>) None False,
          example_pending 2 None None False]\<rparr>) []) = Inl (AssertFailed 0x555)"
proof -
  let ?m1 = "example_local 1 (Some \<lparr>batch = Some True, batchId = None\<rparr>)"
  let ?m2 = "example_local 2 None"
  let ?m3 = "example_local 3 (Some \<lparr>batch = Some False, batchId = None\<rparr>)"
  let ?s0 = "newPendingStateManager None"
  let ?s1 = "snd (onFlushBatch example_ext (Some ''A'') ''u'' example_batch3 (Some 5) False None ?s0)"
  have flush: "onFlushBatch example_ext (Some ''A'') ''u'' [?m1, ?m2, ?m3] (Some 5) False None ?s0 =
                 (Inr (), ?s1)"
    by (simp add: onFlushBatch_def example_batch3_def)
  have hyps: "onFlushBatch example_ext (Some ''A'') ''u'' [?m1, ?m2, ?m3] (Some 5) False None ?s0 =
                 (Inr (), ?s1) \<and>
    pendingMessages ?s0 = [] \<and> initialMessages ?s0 = [] \<and>
    (case lbm_metadata ?m1 of None \<Rightarrow> None | Some md \<Rightarrow> batch md) = Some True \<and>
    (case lbm_metadata ?m2 of None \<Rightarrow> None | Some md \<Rightarrow> batch md) = None \<and>
    (case lbm_metadata ?m3 of None \<Rightarrow> None | Some md \<Rightarrow> batch md) = Some False \<and>
    (\<forall>m\<in>set [?m1, ?m2, ?m3]. jsProp (lbm_runtimeOp m) ''type'' \<noteq> Some (JStr ''groupedBatch'')) \<and>
    \<not> isEmptyBatchLocalOpMetadata (lbm_localOpMetadata ?m1) \<and>
    (connected example_replay_handler [] \<or> committingStagedBatches (effectiveOptions None)) \<and>
    (committingStagedBatches (effectiveOptions None) \<or>
     clientIdFromLastReplay ?s0 \<noteq> clientId example_replay_handler []) \<and>
    (committingStagedBatches (effectiveOptions None) \<longrightarrow> False)"
    using flush
    by (simp add: newPendingStateManager_def example_local_def example_op_def
          isEmptyBatchLocalOpMetadata_def example_replay_handler_def effectiveOptions_def
          defaultReplayPendingStatesOptions_def)
  note one = batch_grouping[THEN conjunct1, rule_format, OF hyps]
  have sunk: "map fst (snd (snd (replayPendingStates example_ext example_replay_handler None ?s1 []))) =
     [[toResubmitData ?m1, toResubmitData ?m2, toResubmitData ?m3]]"
    unfolding one by (simp add: example_replay_handler_def Let_def)
  let ?front = "example_pending 1 (Some \<lparr>batch = Some True, batchId = None\<rparr>) None False"
  let ?s = "(newPendingStateManager None)\<lparr>pendingMessages := [?front, example_pending 2 None None False]\<rparr>"
  have hyps2: "batchFlag ?front = Some True \<and>
    \<not> isEmptyBatchLocalOpMetadata (localOpMetadata ?front) \<and>
    (committingStagedBatches (effectiveOptions None) \<longrightarrow> staged (batchInfo ?front)) \<and>
    (\<forall>m\<in>set [example_pending 2 None None False]. batchFlag m \<noteq> Some False) \<and>
    pendingMessages ?s = ?front # [example_pending 2 None None False]"
    by (simp add: example_pending_def newPendingMessage_def batchFlag_def example_local_def
          isEmptyBatchLocalOpMetadata_def effectiveOptions_def
          defaultReplayPendingStatesOptions_def)
  from batch_grouping[THEN conjunct2, THEN conjunct2, rule_format, OF hyps2,
         of example_ext example_replay_handler "[]"]
  obtain code where failed:
    "fst (replayPendingStates example_ext example_replay_handler None ?s []) =
       Inl (AssertFailed code)" by blast
  have which: "fst (replayPendingStates example_ext example_replay_handler None ?s []) =
       Inl (AssertFailed 0x555)"
    by code_simp
  show ?thesis
    using flush sunk which by simp
qed

end
